theory Spec2Isabelle
  imports Complex_Main
begin

section \<open>JavaScript strings and numbers\<close>

text \<open>
  The plugin is TypeScript; its week keys and event records are strings. A JavaScript
  string is modelled as a \<^typ>\<open>string\<close> (the keys and records the plugin builds are ASCII),
  an integer-valued number as an \<^typ>\<open>int\<close>, and \<open>NaN\<close> as \<^const>\<open>None\<close> of
  \<^typ>\<open>int option\<close>. The functions below are the library methods the source calls:
  \<open>Number.prototype.toString\<close>, \<open>padStart\<close>, \<open>startsWith\<close>, \<open>includes\<close>,
  \<open>split\<close>, \<open>trim\<close> and \<open>parseInt\<close>.
\<close>

definition digit_char :: "nat \<Rightarrow> char" where
  "digit_char d = ''0123456789'' ! d"

fun nat_to_string :: "nat \<Rightarrow> string" where
  "nat_to_string n =
     (if n < 10 then [digit_char n]
      else nat_to_string (n div 10) @ [digit_char (n mod 10)])"

declare nat_to_string.simps [simp del]

definition Number_toString :: "int \<Rightarrow> string" where
  "Number_toString i =
     (if i < 0 then CHR ''-'' # nat_to_string (nat (- i)) else nat_to_string (nat i))"

definition padStart :: "nat \<Rightarrow> char \<Rightarrow> string \<Rightarrow> string" where
  "padStart n c s = replicate (n - length s) c @ s"

definition startsWith :: "string \<Rightarrow> string \<Rightarrow> bool" where
  "startsWith p s = (take (length p) s = p)"

definition includes_str :: "string \<Rightarrow> nat \<Rightarrow> string \<Rightarrow> bool" where
  \<comment> \<open>\<open>s.includes(sub, pos)\<close>: the search starts at \<open>pos\<close>, clamped to the length.\<close>
  "includes_str sub pos s =
     list_ex (\<lambda>i. startsWith sub (drop i s)) [min pos (length s) ..< Suc (length s)]"

function split_from :: "string \<Rightarrow> string \<Rightarrow> string \<Rightarrow> string list" where
  "split_from sep cur s =
     (if s = [] then [cur]
      else if sep \<noteq> [] \<and> startsWith sep s
           then cur # split_from sep [] (drop (length sep) s)
           else split_from sep (cur @ [hd s]) (tl s))"
  by pat_completeness auto
termination
  by (relation "measure (\<lambda>(sep, cur, s). length s)") auto

declare split_from.simps [simp del]

definition split :: "string \<Rightarrow> string \<Rightarrow> string list" where
  \<comment> \<open>\<open>s.split(sep)\<close>; with the empty separator JavaScript returns the characters.\<close>
  "split sep s = (if sep = [] then map (\<lambda>c. [c]) s else split_from sep [] s)"

definition is_whitespace :: "char \<Rightarrow> bool" where
  \<comment> \<open>The white space and line terminators of JavaScript that an 8-bit character can be:
      space, tab, line feed, vertical tab, form feed, carriage return and the no-break
      space U+00A0. The others (U+1680, U+2000 to U+200A, U+2028, U+2029, U+202F, U+205F,
      U+3000, U+FEFF) are not characters of \<^typ>\<open>string\<close>.\<close>
  "is_whitespace c =
     (c \<in> set [CHR '' '', CHR 0x09, CHR 0x0A, CHR 0x0B, CHR 0x0C, CHR 0x0D, CHR 0xA0])"

definition trim :: "string \<Rightarrow> string" where
  "trim s = rev (dropWhile is_whitespace (rev (dropWhile is_whitespace s)))"

definition digit_value :: "char \<Rightarrow> nat option" where
  "digit_value c =
     (let k = of_char c :: nat in
      if 48 \<le> k \<and> k \<le> 57 then Some (k - 48)
      else if 97 \<le> k \<and> k \<le> 122 then Some (k - 87)
      else if 65 \<le> k \<and> k \<le> 90 then Some (k - 55)
      else None)"

definition is_digit_in :: "nat \<Rightarrow> char \<Rightarrow> bool" where
  "is_digit_in radix c = (case digit_value c of None \<Rightarrow> False | Some v \<Rightarrow> v < radix)"

definition digits_value :: "nat \<Rightarrow> string \<Rightarrow> nat" where
  "digits_value radix ds = foldl (\<lambda>a c. radix * a + the (digit_value c)) 0 ds"

definition parseInt :: "string \<Rightarrow> int option" where
  \<comment> \<open>\<open>parseInt(s)\<close> without a radix: leading white space, a sign, a \<open>0x\<close> prefix, then
      the longest run of digits; \<open>NaN\<close> when that run is empty. The result is the exact
      integer: JavaScript rounds it to a double, which changes a value only from \<open>2 ^ 53\<close>
      on, so a theorem that speaks of parsed numbers keeps them below \<open>2 ^ 53\<close>.\<close>
  "parseInt s =
     (let s1 = dropWhile is_whitespace s;
          neg = (s1 \<noteq> [] \<and> hd s1 = CHR ''-'');
          s2 = (if s1 \<noteq> [] \<and> (hd s1 = CHR ''-'' \<or> hd s1 = CHR ''+'') then tl s1 else s1);
          hex = (startsWith ''0x'' s2 \<or> startsWith ''0X'' s2);
          radix = (if hex then 16 else 10);
          s3 = (if hex then drop 2 s2 else s2);
          ds = takeWhile (is_digit_in radix) s3
      in if ds = [] then None
         else Some ((if neg then - 1 else 1) * int (digits_value radix ds)))"

text \<open>Comparisons of numbers that may be \<open>NaN\<close>: every comparison with \<open>NaN\<close> is false.\<close>

definition js_lt :: "int option \<Rightarrow> int option \<Rightarrow> bool" where
  "js_lt a b = (case (a, b) of (Some x, Some y) \<Rightarrow> x < y | _ \<Rightarrow> False)"

definition js_le :: "int option \<Rightarrow> int option \<Rightarrow> bool" where
  "js_le a b = (case (a, b) of (Some x, Some y) \<Rightarrow> x \<le> y | _ \<Rightarrow> False)"

definition js_gt :: "int option \<Rightarrow> int option \<Rightarrow> bool" where
  "js_gt a b = js_lt b a"

definition js_ge :: "int option \<Rightarrow> int option \<Rightarrow> bool" where
  "js_ge a b = js_le b a"

definition js_eq :: "int option \<Rightarrow> int option \<Rightarrow> bool" where
  "js_eq a b = (case (a, b) of (Some x, Some y) \<Rightarrow> x = y | _ \<Rightarrow> False)"


section \<open>JavaScript dates\<close>

text \<open>
  A \<open>Date\<close> is its time value: milliseconds since 1970-01-01T00:00:00Z, an \<^typ>\<open>int\<close>.
  The day, year, month and weekday functions are those of ECMA-262 (section
  "Time Values and Time Range"). The local time zone is taken to be UTC, so local
  calendar fields and UTC calendar fields agree and no day has 23 or 25 hours.
  An invalid date (time value \<open>NaN\<close>) is handled where the source can produce one.
\<close>

type_synonym Date = int

definition msPerDay :: int where
  "msPerDay = 86400000"

definition Day :: "Date \<Rightarrow> int" where
  "Day t = t div msPerDay"

definition TimeWithinDay :: "Date \<Rightarrow> int" where
  "TimeWithinDay t = t mod msPerDay"

definition DaysInYear :: "int \<Rightarrow> int" where
  "DaysInYear y =
     (if y mod 4 \<noteq> 0 then 365
      else if y mod 100 \<noteq> 0 then 366
      else if y mod 400 \<noteq> 0 then 365
      else 366)"

definition DayFromYear :: "int \<Rightarrow> int" where
  "DayFromYear y =
     365 * (y - 1970) + (y - 1969) div 4 - (y - 1901) div 100 + (y - 1601) div 400"

definition YearFromDay :: "int \<Rightarrow> int" where
  \<comment> \<open>ECMA-262: the largest \<open>y\<close> with \<open>DayFromYear y \<le> d\<close>. Computed from an estimate
      that is off by at most one; \<open>YearFromDay_unique\<close> below proves the two agree.\<close>
  "YearFromDay d =
     (let y = 1970 + (400 * d) div 146097
      in if DayFromYear (y + 1) \<le> d then y + 1
         else if DayFromYear y \<le> d then y
         else y - 1)"

definition InLeapYear :: "int \<Rightarrow> int" where
  "InLeapYear y = (if DaysInYear y = 366 then 1 else 0)"

definition DayWithinYear :: "int \<Rightarrow> int" where
  "DayWithinYear d = d - DayFromYear (YearFromDay d)"

definition month_of_yday :: "int \<Rightarrow> int \<Rightarrow> int" where
  "month_of_yday leap n =
     (if n < 31 then 0
      else if n < 59 + leap then 1
      else if n < 90 + leap then 2
      else if n < 120 + leap then 3
      else if n < 151 + leap then 4
      else if n < 181 + leap then 5
      else if n < 212 + leap then 6
      else if n < 243 + leap then 7
      else if n < 273 + leap then 8
      else if n < 304 + leap then 9
      else if n < 334 + leap then 10
      else 11)"

definition month_start :: "int \<Rightarrow> int \<Rightarrow> int" where
  "month_start leap m =
     (if m = 0 then 0
      else if m = 1 then 31
      else if m = 2 then 59 + leap
      else if m = 3 then 90 + leap
      else if m = 4 then 120 + leap
      else if m = 5 then 151 + leap
      else if m = 6 then 181 + leap
      else if m = 7 then 212 + leap
      else if m = 8 then 243 + leap
      else if m = 9 then 273 + leap
      else if m = 10 then 304 + leap
      else 334 + leap)"

definition MakeDay :: "int \<Rightarrow> int \<Rightarrow> int \<Rightarrow> int" where
  "MakeDay year month date =
     (let ym = year + month div 12; mn = month mod 12
      in DayFromYear ym + month_start (InLeapYear ym) mn + date - 1)"

definition MakeDate :: "int \<Rightarrow> int \<Rightarrow> Date" where
  "MakeDate day time = day * msPerDay + time"

definition getTime :: "Date \<Rightarrow> int" where
  "getTime t = t"

definition getFullYear :: "Date \<Rightarrow> int" where
  "getFullYear t = YearFromDay (Day t)"

definition getMonth :: "Date \<Rightarrow> int" where
  "getMonth t = month_of_yday (InLeapYear (getFullYear t)) (DayWithinYear (Day t))"

definition getDate :: "Date \<Rightarrow> int" where
  "getDate t =
     DayWithinYear (Day t) - month_start (InLeapYear (getFullYear t)) (getMonth t) + 1"

definition getDay :: "Date \<Rightarrow> int" where
  "getDay t = (Day t + 4) mod 7"

definition setHours0 :: "Date \<Rightarrow> Date" where
  \<comment> \<open>\<open>d.setHours(0, 0, 0, 0)\<close>\<close>
  "setHours0 t = MakeDate (Day t) 0"

definition setDate :: "Date \<Rightarrow> int \<Rightarrow> Date" where
  "setDate t n = MakeDate (MakeDay (getFullYear t) (getMonth t) n) (TimeWithinDay t)"

definition setFullYear :: "Date \<Rightarrow> int \<Rightarrow> Date" where
  "setFullYear t y = MakeDate (MakeDay y (getMonth t) (getDate t)) (TimeWithinDay t)"

definition newDate :: "int \<Rightarrow> int \<Rightarrow> int \<Rightarrow> Date" where
  \<comment> \<open>\<open>new Date(year, month, date)\<close>; a year from 0 to 99 means 1900 + year.\<close>
  "newDate year month date =
     MakeDate (MakeDay (if 0 \<le> year \<and> year \<le> 99 then 1900 + year else year) month date) 0"

definition pad_num :: "nat \<Rightarrow> int \<Rightarrow> string" where
  "pad_num n i = padStart n CHR ''0'' (Number_toString i)"

definition toISOString :: "Date \<Rightarrow> string" where
  "toISOString t =
     (let y = getFullYear t;
          ys = (if 0 \<le> y \<and> y \<le> 9999 then pad_num 4 y
                else (if y < 0 then CHR ''-'' else CHR ''+'') # pad_num 6 (abs y));
          ms = TimeWithinDay t
      in ys @ ''-'' @ pad_num 2 (getMonth t + 1) @ ''-'' @ pad_num 2 (getDate t) @ ''T''
         @ pad_num 2 (ms div 3600000) @ '':'' @ pad_num 2 (ms div 60000 mod 60) @ '':''
         @ pad_num 2 (ms div 1000 mod 60) @ ''.'' @ pad_num 3 (ms mod 1000) @ ''Z'')"

definition parseDate :: "string \<Rightarrow> Date option" where
  \<comment> \<open>\<open>new Date(s)\<close> for the value of a date input, \<open>YYYY-MM-DD\<close>: midnight UTC of that
      day. Any other string is an invalid date here.\<close>
  "parseDate s =
     (let parts = split ''-'' s in
      if length parts = 3 \<and> length (parts ! 0) = 4 \<and> length (parts ! 1) = 2
         \<and> length (parts ! 2) = 2 \<and> list_all (is_digit_in 10) (concat parts)
      then (let y = int (digits_value 10 (parts ! 0));
                m = int (digits_value 10 (parts ! 1));
                d = int (digits_value 10 (parts ! 2))
            in if 1 \<le> m \<and> m \<le> 12 \<and> 1 \<le> d \<and> d \<le> 31
               then Some (MakeDate (MakeDay y (m - 1) d) 0) else None)
      else None)"


section \<open>Week keys\<close>

definition MONTH_NAMES :: "string list" where
  "MONTH_NAMES = [''Jan'', ''Feb'', ''Mar'', ''Apr'', ''May'', ''Jun'',
                  ''Jul'', ''Aug'', ''Sep'', ''Oct'', ''Nov'', ''Dec'']"

definition getISOWeekNumber :: "Date \<Rightarrow> int" where
  "getISOWeekNumber date =
     (let d0 = setHours0 date;
          d = setDate d0 (getDate d0 + 4 - (if getDay d0 = 0 then 7 else getDay d0));
          yearStart = newDate (getFullYear d) 0 1
      in \<lceil>(real_of_int (getTime d - getTime yearStart) / 86400000 + 1) / 7\<rceil>)"

definition weekKeyString :: "int \<Rightarrow> int \<Rightarrow> string" where
  \<comment> \<open>the template \<open>`${year}-W${weekNum.toString().padStart(2, "0")}`\<close>\<close>
  "weekKeyString year weekNum =
     Number_toString year @ ''-W'' @ padStart 2 CHR ''0'' (Number_toString weekNum)"

definition getWeekKeyFromDate :: "Date \<Rightarrow> string" where
  "getWeekKeyFromDate date =
     (let year = getFullYear date;
          weekNum = getISOWeekNumber date
      in weekKeyString year weekNum)"

subsection \<open>Facts about the calendar functions\<close>

lemma div_bounds:
  fixes x k :: int
  assumes "0 < k"
  shows "k * (x div k) \<le> x" and "x < k * (x div k) + k"
proof -
  have "x = k * (x div k) + x mod k" by simp
  moreover have "0 \<le> x mod k" "x mod k < k" using assms by simp_all
  ultimately show "k * (x div k) \<le> x" and "x < k * (x div k) + k" by linarith+
qed

lemma DayFromYear_bounds:
  "146097 * (y - 1970) - 506 \<le> 400 * DayFromYear y"
  "400 * DayFromYear y \<le> 146097 * (y - 1970) + 589"
proof -
  define a where "a = (y - 1969) div 4"
  define b where "b = (y - 1901) div 100"
  define c where "c = (y - 1601) div 400"
  have a: "4 * a \<le> y - 1969" "y - 1969 < 4 * a + 4"
    unfolding a_def by (rule div_bounds; simp)+
  have b: "100 * b \<le> y - 1901" "y - 1901 < 100 * b + 100"
    unfolding b_def by (rule div_bounds; simp)+
  have c: "400 * c \<le> y - 1601" "y - 1601 < 400 * c + 400"
    unfolding c_def by (rule div_bounds; simp)+
  have D: "DayFromYear y = 365 * (y - 1970) + a - b + c"
    unfolding DayFromYear_def a_def b_def c_def by simp
  show "146097 * (y - 1970) - 506 \<le> 400 * DayFromYear y"
    unfolding D using a b c by (simp add: algebra_simps)
  show "400 * DayFromYear y \<le> 146097 * (y - 1970) + 589"
    unfolding D using a b c by (simp add: algebra_simps)
qed

lemma DayFromYear_mono:
  assumes "y \<le> y'"
  shows "DayFromYear y \<le> DayFromYear y'"
proof (cases "y = y'")
  case True
  then show ?thesis by simp
next
  case False
  then have lt: "y + 1 \<le> y'" using assms by simp
  define a where "a = (y - 1969) div 4"
  define a' where "a' = (y' - 1969) div 4"
  define b where "b = (y - 1901) div 100"
  define b' where "b' = (y' - 1901) div 100"
  define c where "c = (y - 1601) div 400"
  define c' where "c' = (y' - 1601) div 400"
  have a: "a \<le> a'"
    unfolding a_def a'_def using assms by (simp add: zdiv_mono1)
  have c: "c \<le> c'"
    unfolding c_def c'_def using assms by (simp add: zdiv_mono1)
  have b1: "100 * b' \<le> y' - 1901" unfolding b'_def by (rule div_bounds; simp)
  have b2: "y - 1901 < 100 * b + 100" unfolding b_def by (rule div_bounds; simp)
  have b: "b' - b \<le> y' - y"
    using b1 b2 lt by linarith
  have "365 * (y - 1970) + a - b + c \<le> 365 * (y' - 1970) + a' - b' + c'"
    using a b c lt by (simp add: algebra_simps)
  then show ?thesis
    unfolding DayFromYear_def a_def a'_def b_def b'_def c_def c'_def .
qed

lemma year_estimate:
  fixes d :: int
  defines "e \<equiv> 1970 + (400 * d) div 146097"
  shows "DayFromYear (e - 1) \<le> d" and "d < DayFromYear (e + 2)"
proof -
  define q where "q = (400 * d) div 146097"
  have q: "146097 * q \<le> 400 * d" "400 * d < 146097 * q + 146097"
    unfolding q_def by (rule div_bounds; simp)+
  have e: "e = 1970 + q" by (simp add: e_def q_def)
  have "400 * DayFromYear (e - 1) \<le> 146097 * (e - 1 - 1970) + 589"
    by (rule DayFromYear_bounds)
  then have "400 * DayFromYear (e - 1) \<le> 400 * d" using q e by simp
  then show "DayFromYear (e - 1) \<le> d" by simp
  have "146097 * (e + 2 - 1970) - 506 \<le> 400 * DayFromYear (e + 2)"
    by (rule DayFromYear_bounds)
  then have "400 * d < 400 * DayFromYear (e + 2)" using q e by simp
  then show "d < DayFromYear (e + 2)" by simp
qed

lemma YearFromDay_lower: "DayFromYear (YearFromDay d) \<le> d"
  using year_estimate(1)[of d] by (simp add: YearFromDay_def Let_def)

lemma YearFromDay_upper: "d < DayFromYear (YearFromDay d + 1)"
  using year_estimate(2)[of d] by (auto simp add: YearFromDay_def Let_def)

text \<open>\<open>YearFromDay\<close> is the year function of ECMA-262: the one year whose days hold \<open>d\<close>.\<close>

lemma YearFromDay_unique:
  assumes "DayFromYear y \<le> d" "d < DayFromYear (y + 1)"
  shows "YearFromDay d = y"
proof (rule antisym)
  show "YearFromDay d \<le> y"
  proof (rule ccontr)
    assume "\<not> YearFromDay d \<le> y"
    then have "y + 1 \<le> YearFromDay d" by simp
    then have "DayFromYear (y + 1) \<le> DayFromYear (YearFromDay d)" by (rule DayFromYear_mono)
    with YearFromDay_lower[of d] assms show False by linarith
  qed
  show "y \<le> YearFromDay d"
  proof (rule ccontr)
    assume "\<not> y \<le> YearFromDay d"
    then have "YearFromDay d + 1 \<le> y" by simp
    then have "DayFromYear (YearFromDay d + 1) \<le> DayFromYear y" by (rule DayFromYear_mono)
    with YearFromDay_upper[of d] assms show False by linarith
  qed
qed

lemma YearFromDay_mono:
  assumes "d \<le> d'"
  shows "YearFromDay d \<le> YearFromDay d'"
proof (rule ccontr)
  assume "\<not> YearFromDay d \<le> YearFromDay d'"
  then have "YearFromDay d' + 1 \<le> YearFromDay d" by simp
  then have "DayFromYear (YearFromDay d' + 1) \<le> DayFromYear (YearFromDay d)"
    by (rule DayFromYear_mono)
  with YearFromDay_lower[of d] YearFromDay_upper[of d'] assms show False by linarith
qed

lemma month_of_yday_range: "0 \<le> month_of_yday leap n \<and> month_of_yday leap n \<le> 11"
  by (simp add: month_of_yday_def)

lemma getMonth_range: "0 \<le> getMonth t" "getMonth t \<le> 11"
  using month_of_yday_range by (simp_all add: getMonth_def)

lemma Day_TimeWithinDay: "Day t * msPerDay + TimeWithinDay t = t"
  by (simp add: Day_def TimeWithinDay_def)

text \<open>\<open>d.setDate(d.getDate() + k)\<close> moves a date by \<open>k\<close> whole days.\<close>

lemma setDate_getDate_add: "setDate t (getDate t + k) = t + k * msPerDay"
proof -
  have m: "getMonth t div 12 = 0" "getMonth t mod 12 = getMonth t"
    using getMonth_range[of t] by simp_all
  have "MakeDay (getFullYear t) (getMonth t) (getDate t + k) = Day t + k"
    by (simp add: MakeDay_def Let_def m getDate_def DayWithinYear_def getFullYear_def)
  then have "setDate t (getDate t + k) = (Day t + k) * msPerDay + TimeWithinDay t"
    by (simp add: setDate_def MakeDate_def)
  also have "\<dots> = t + k * msPerDay"
    using Day_TimeWithinDay[of t] by (simp add: algebra_simps)
  finally show ?thesis .
qed


section \<open>Week keys between two dates\<close>

function weekKeys_loop :: "Date \<Rightarrow> Date \<Rightarrow> string list \<Rightarrow> string list" where
  "weekKeys_loop currentDate endDate weekKeys =
     (if currentDate < endDate
      then (let currentDate' = setDate currentDate (getDate currentDate + 7)
            in if currentDate' > endDate then weekKeys
               else (let currentWeekKey = getWeekKeyFromDate currentDate'
                     in weekKeys_loop currentDate' endDate
                          (if currentWeekKey \<in> set weekKeys then weekKeys
                           else weekKeys @ [currentWeekKey])))
      else weekKeys)"
  by pat_completeness auto
termination
  by (relation "measure (\<lambda>(currentDate, endDate, weekKeys). nat (endDate - currentDate))")
     (auto simp add: setDate_getDate_add msPerDay_def)

declare weekKeys_loop.simps [simp del]

definition getWeekKeysBetweenDates :: "Date \<Rightarrow> Date \<Rightarrow> string list" where
  \<comment> \<open>\<open>currentDate\<close> is cloned from the first argument before the two are put in order.\<close>
  "getWeekKeysBetweenDates startDate0 endDate0 =
     (let currentDate = startDate0;
          startDate = (if startDate0 > endDate0 then endDate0 else startDate0);
          endDate = (if startDate0 > endDate0 then startDate0 else endDate0);
          weekKeys = weekKeys_loop currentDate endDate [getWeekKeyFromDate currentDate];
          endWeekKey = getWeekKeyFromDate endDate
      in if endWeekKey \<in> set weekKeys then weekKeys else weekKeys @ [endWeekKey])"


section \<open>From a week key back to dates\<close>

datatype js_error = RangeError

definition convertWeekToDate :: "string \<Rightarrow> js_error + string" where
  \<comment> \<open>With a year or week that does not parse the date is invalid and
      \<open>toISOString\<close> throws a \<open>RangeError\<close>.\<close>
  "convertWeekToDate weekKey =
     (let parts = split ''-W'' weekKey in
      if length parts \<noteq> 2 then Inr []
      else (case (parseInt (parts ! 0), parseInt (parts ! 1)) of
              (Some year, Some week) \<Rightarrow>
                (let date = newDate year 0 1;
                     dayOfWeek = getDay date;
                     daysToAdd = (week - 1) * 7
                        + (if dayOfWeek \<le> 4 then 1 - dayOfWeek else 8 - dayOfWeek);
                     date' = setDate date (getDate date + daysToAdd)
                 in Inr (hd (split ''T'' (toISOString date'))))
            | _ \<Rightarrow> Inl RangeError))"

definition formatDate :: "Date \<Rightarrow> string" where
  "formatDate date = (MONTH_NAMES ! nat (getMonth date)) @ '' '' @ Number_toString (getDate date)"

definition weekDateRange :: "int \<Rightarrow> int \<Rightarrow> Date \<times> Date" where
  \<comment> \<open>\<open>firstDayOfWeek\<close> and \<open>lastDayOfWeek\<close> of \<open>getWeekDateRange\<close>, for a year and a
      week that parsed.\<close>
  "weekDateRange year week =
     (let firstDayOfWeek0 = newDate year 0 1;
          dayOffset = (if getDay firstDayOfWeek0 = 0 then 7 else getDay firstDayOfWeek0);
          dayToAdd = 1 + (week - 1) * 7 - (dayOffset - 1);
          firstDayOfWeek = setDate firstDayOfWeek0 dayToAdd;
          lastDayOfWeek = setDate firstDayOfWeek (getDate firstDayOfWeek + 6)
      in (firstDayOfWeek, lastDayOfWeek))"

definition getWeekDateRange :: "string \<Rightarrow> string" where
  \<comment> \<open>With a year or week that does not parse both dates are invalid: the month name is
      \<open>undefined\<close> and the day is \<open>NaN\<close>.\<close>
  "getWeekDateRange weekKey =
     (let parts = split ''-W'' weekKey in
      if length parts \<noteq> 2 then []
      else (case (parseInt (parts ! 0), parseInt (parts ! 1)) of
              (Some year, Some week) \<Rightarrow>
                (let range = weekDateRange year week;
                     firstDayOfWeek = fst range;
                     lastDayOfWeek = snd range
                 in formatDate firstDayOfWeek @ '' - '' @ formatDate lastDayOfWeek)
            | _ \<Rightarrow> ''undefined NaN - undefined NaN''))"

section \<open>Evaluation rules\<close>

text \<open>
  The rule sets with which the simplifier computes the functions above on concrete
  dates and strings. They are used with the congruence rule \<open>let_weak_cong\<close>, so that
  the value bound by a \<open>let\<close> is computed before its body is looked at.
\<close>

lemma replicate_numeral_unfold:
  "replicate (numeral k) x = x # replicate (pred_numeral k) x"
  by (simp add: numeral_eq_Suc)

lemmas date_defs = msPerDay_def Day_def TimeWithinDay_def DaysInYear_def DayFromYear_def
  YearFromDay_def InLeapYear_def DayWithinYear_def month_of_yday_def month_start_def
  MakeDay_def MakeDate_def getTime_def getFullYear_def getMonth_def getDate_def getDay_def
  setHours0_def setDate_def setFullYear_def newDate_def

lemmas str_defs = digit_char_def Number_toString_def padStart_def startsWith_def
  includes_str_def split_def is_whitespace_def trim_def digit_value_def is_digit_in_def
  digits_value_def parseInt_def pad_num_def replicate_numeral_unfold nat_to_string.simps
  split_from.simps

lemmas week_defs = getISOWeekNumber_def weekKeyString_def getWeekKeyFromDate_def toISOString_def parseDate_def
  convertWeekToDate_def formatDate_def weekDateRange_def getWeekDateRange_def MONTH_NAMES_def
  getWeekKeysBetweenDates_def weekKeys_loop.simps


section \<open>Claims about week keys\<close>

text \<open>
  The time values used below: 1735603200000 is 2024-12-31 (a Tuesday), 1705276800000
  is 2024-01-15 and 1704067200000 is 2024-01-01, each at midnight.
\<close>

text \<open>
  Claim C1. The claim: the year in the key returned by \<open>getWeekKeyFromDate\<close> is the year
  of the date shifted to the Thursday of its ISO week, so that Dec 31 in ISO week 1 of
  the next year gets the next year. The code takes the week number from the shifted
  date and the year from the date itself: 2024-12-31 is shifted to Thursday
  2025-01-02, the week number is 1, and the key is \<open>2024-W01\<close>, the key of the first
  week of January 2024, where the claim says \<open>2025-W01\<close>.
\<close>

theorem getWeekKeyFromDate_Dec31_keeps_calendar_year:
  "parseDate ''2024-12-31'' = Some 1735603200000
   \<and> getDay 1735603200000 = 2
   \<and> toISOString (setDate 1735603200000 (getDate 1735603200000 + 4 - 2))
       = ''2025-01-02T00:00:00.000Z''
   \<and> getISOWeekNumber 1735603200000 = 1
   \<and> getWeekKeyFromDate 1735603200000 = ''2024-W01''
   \<and> getWeekKeyFromDate 1735603200000 \<noteq> ''2025-W01''"
  by (simp add: week_defs date_defs str_defs Let_def cong: let_weak_cong)

text \<open>
  Claim C2. The claim: for every valid ISO week \<open>w\<close> of a year \<open>y\<close>, the key of the date
  that \<open>convertWeekToDate\<close> returns for \<open>y-Ww\<close> is that key again. For \<open>2025-W01\<close> the
  date is Monday 2024-12-30, and \<open>getWeekKeyFromDate\<close> gives that date the key
  \<open>2024-W01\<close>: the round trip does not come back. It is the defect of claim C1.
\<close>

theorem week_key_round_trip_fails_2025_W01:
  "convertWeekToDate ''2025-W01'' = Inr ''2024-12-30''
   \<and> map_option getWeekKeyFromDate (parseDate ''2024-12-30'') = Some ''2024-W01''"
  by (simp add: week_defs date_defs str_defs Let_def cong: let_weak_cong)

text \<open>
  Claim C3. The claim: \<open>getWeekKeysBetweenDates a b\<close> and \<open>getWeekKeysBetweenDates b a\<close>
  are the same list, of length at least 1, holding the keys of both dates. The code
  clones its cursor from the first argument before it puts the two dates in order, so
  with the later date first the loop never runs: for 2024-01-15 and 2024-01-01 the
  result is the key of 2024-01-15 alone, and the other order gives three keys.
\<close>

theorem getWeekKeysBetweenDates_later_date_first:
  "getWeekKeysBetweenDates 1705276800000 1704067200000 = [''2024-W03'']
   \<and> getWeekKeysBetweenDates 1704067200000 1705276800000
       = [''2024-W01'', ''2024-W02'', ''2024-W03'']
   \<and> getWeekKeyFromDate 1704067200000 = ''2024-W01''
   \<and> getWeekKeyFromDate 1704067200000
       \<notin> set (getWeekKeysBetweenDates 1705276800000 1704067200000)"
  by (simp add: week_defs date_defs str_defs Let_def cong: let_weak_cong)

text \<open>
  Claim C8. The claim: the first day of \<open>getWeekDateRange\<close> is the Monday that
  \<open>convertWeekToDate\<close> computes (January 1st plus \<open>(week - 1) * 7\<close> plus \<open>1 - dow\<close> when
  the weekday of January 1st is at most 4, plus \<open>8 - dow\<close> otherwise), and the last day
  is 6 days later. \<open>getWeekDateRange\<close> always subtracts the weekday: when January 1st
  is a Friday, Saturday or Sunday its first day is one week early. 2021-01-01 is a
  Friday: the range of \<open>2021-W01\<close> starts on 2020-12-28, and \<open>convertWeekToDate\<close>
  returns 2021-01-04.
\<close>

theorem getWeekDateRange_2021_W01_one_week_early:
  "getDay (newDate 2021 0 1) = 5
   \<and> getWeekDateRange ''2021-W01'' = ''Dec 28 - Jan 3''
   \<and> toISOString (fst (weekDateRange 2021 1)) = ''2020-12-28T00:00:00.000Z''
   \<and> convertWeekToDate ''2021-W01'' = Inr ''2021-01-04''"
  by (simp add: week_defs date_defs str_defs Let_def cong: let_weak_cong)

section \<open>Settings\<close>

text \<open>
  The fields of \<open>ChronosSettings\<close> that the functions below read or write. The plugin's
  \<open>customEvents\<close> is an object used as a dictionary from type name to event records;
  it is an association list here, in the order \<open>Object.entries\<close> walks it (the order in
  which the keys were added, for keys that are not array indices).
\<close>

text \<open>
  A number that need not be an integer, as \<open>zoomLevel\<close> is: a real number, one of the two
  infinities or \<open>NaN\<close>, with the arithmetic of JavaScript on them (\<open>x / 0\<close> is an
  infinity or \<open>NaN\<close>, \<open>Math.min\<close> and \<open>Math.max\<close> return \<open>NaN\<close> when an argument is
  \<open>NaN\<close>). The rounding of a double and the sign of zero are not modelled: finite
  results are exact.
\<close>

datatype jsnum = NaN | NegInf | Fin real | PosInf











record CustomEventType =
  name :: string
  color :: string

record ChronosSettings =
  greenEvents :: "string list"
  blueEvents :: "string list"
  zoomLevel :: jsnum
  pinkEvents :: "string list"
  purpleEvents :: "string list"
  customEventTypes :: "CustomEventType list"
  customEvents :: "(string \<times> string list) list"
  enableAutoFill :: bool
  autoFillDay :: int
  filledWeeks :: "string list"
  lifespan :: int

definition DEFAULT_SETTINGS :: ChronosSettings where
  "DEFAULT_SETTINGS =
     \<lparr>greenEvents = [], blueEvents = [], zoomLevel = Fin 1.0, pinkEvents = [],
      purpleEvents = [], customEventTypes = [], customEvents = [],
      enableAutoFill = True, autoFillDay = 1, filledWeeks = [], lifespan = 90\<rparr>"


section \<open>Auto-fill\<close>

definition checkAndAutoFill :: "Date \<Rightarrow> ChronosSettings \<Rightarrow> bool \<times> ChronosSettings" where
  \<comment> \<open>\<open>now\<close> is the \<open>new Date()\<close> of the call; the result is the returned flag and the
      settings after the call.\<close>
  "checkAndAutoFill now settings =
     (if \<not> enableAutoFill settings then (False, settings)
      else (let currentDay = getDay now in
            if currentDay \<noteq> autoFillDay settings then (False, settings)
            else (let currentWeekKey = getWeekKeyFromDate now in
                  if currentWeekKey \<in> set (filledWeeks settings) then (False, settings)
                  else (True, settings\<lparr>filledWeeks := filledWeeks settings @ [currentWeekKey]\<rparr>))))"

lemma same_day_getDay: "Day t' = Day t \<Longrightarrow> getDay t' = getDay t"
  by (simp add: getDay_def)

lemma same_day_getWeekKeyFromDate:
  "Day t' = Day t \<Longrightarrow> getWeekKeyFromDate t' = getWeekKeyFromDate t"
  by (simp add: getWeekKeyFromDate_def getISOWeekNumber_def getFullYear_def setHours0_def)

text \<open>
  Claim C6. \<open>checkAndAutoFill\<close> returns false and leaves the settings as they are when
  auto-fill is disabled, when the weekday of \<open>now\<close> is not \<open>autoFillDay\<close>, or when the
  week key of \<open>now\<close> is already in \<open>filledWeeks\<close>; otherwise it appends that key and
  returns true. After a call that returned true, a second call at any time of the same
  day returns false and changes nothing, and the key is in \<open>filledWeeks\<close> exactly once.
\<close>

theorem checkAndAutoFill_once_per_week:
  "(\<not> enableAutoFill s \<longrightarrow> checkAndAutoFill now s = (False, s))
   \<and> (getDay now \<noteq> autoFillDay s \<longrightarrow> checkAndAutoFill now s = (False, s))
   \<and> (getWeekKeyFromDate now \<in> set (filledWeeks s) \<longrightarrow> checkAndAutoFill now s = (False, s))
   \<and> (enableAutoFill s \<and> getDay now = autoFillDay s
         \<and> getWeekKeyFromDate now \<notin> set (filledWeeks s)
       \<longrightarrow> checkAndAutoFill now s
           = (True, s\<lparr>filledWeeks := filledWeeks s @ [getWeekKeyFromDate now]\<rparr>))
   \<and> (\<forall>now'. fst (checkAndAutoFill now s) \<and> Day now' = Day now
       \<longrightarrow> checkAndAutoFill now' (snd (checkAndAutoFill now s))
             = (False, snd (checkAndAutoFill now s))
           \<and> count_list (filledWeeks (snd (checkAndAutoFill now s))) (getWeekKeyFromDate now)
             = 1)"
proof (intro conjI allI impI)
  fix now'
  assume a: "fst (checkAndAutoFill now s) \<and> Day now' = Day now"
  let ?k = "getWeekKeyFromDate now"
  from a have en: "enableAutoFill s" and day: "getDay now = autoFillDay s"
    and new: "?k \<notin> set (filledWeeks s)"
    by (auto simp add: checkAndAutoFill_def Let_def split: if_splits)
  then have r: "checkAndAutoFill now s = (True, s\<lparr>filledWeeks := filledWeeks s @ [?k]\<rparr>)"
    by (simp add: checkAndAutoFill_def)
  from a have k': "getWeekKeyFromDate now' = ?k"
    by (intro same_day_getWeekKeyFromDate) simp
  from a have d': "getDay now' = getDay now"
    by (intro same_day_getDay) simp
  have s1: "snd (checkAndAutoFill now s) = s\<lparr>filledWeeks := filledWeeks s @ [?k]\<rparr>"
    by (simp add: r)
  show "checkAndAutoFill now' (snd (checkAndAutoFill now s))
          = (False, snd (checkAndAutoFill now s))"
    unfolding s1 by (simp add: checkAndAutoFill_def k' d' en day)
  from new have "count_list (filledWeeks s) ?k = 0"
    by (simp add: count_list_0_iff)
  then show "count_list (filledWeeks (snd (checkAndAutoFill now s))) ?k = 1"
    unfolding s1 by simp
qed (simp_all add: checkAndAutoFill_def Let_def)

theorem checkAndAutoFill_once_per_week_witness:
  "fst (checkAndAutoFill 1704067200000 DEFAULT_SETTINGS)
   \<and> Day 1704110400000 = Day 1704067200000
   \<and> filledWeeks (snd (checkAndAutoFill 1704067200000 DEFAULT_SETTINGS)) = [''2024-W01'']
   \<and> \<not> fst (checkAndAutoFill 1704110400000
              (snd (checkAndAutoFill 1704067200000 DEFAULT_SETTINGS)))
   \<and> count_list (filledWeeks (snd (checkAndAutoFill 1704067200000 DEFAULT_SETTINGS)))
         (getWeekKeyFromDate 1704067200000) = 1"
proof -
  let ?s = "DEFAULT_SETTINGS"
  have k: "getWeekKeyFromDate 1704067200000 = ''2024-W01''"
    by (simp add: week_defs date_defs str_defs Let_def cong: let_weak_cong)
  have d: "getDay 1704067200000 = 1" "Day 1704110400000 = Day 1704067200000"
    by (simp_all add: date_defs)
  have r: "checkAndAutoFill 1704067200000 ?s = (True, ?s\<lparr>filledWeeks := [''2024-W01'']\<rparr>)"
    by (simp add: checkAndAutoFill_def DEFAULT_SETTINGS_def k d)
  then have f: "fst (checkAndAutoFill 1704067200000 ?s)" by simp
  from checkAndAutoFill_once_per_week[of ?s 1704067200000] f d(2)
  have "checkAndAutoFill 1704110400000 (snd (checkAndAutoFill 1704067200000 ?s))
          = (False, snd (checkAndAutoFill 1704067200000 ?s))
        \<and> count_list (filledWeeks (snd (checkAndAutoFill 1704067200000 ?s)))
            (getWeekKeyFromDate 1704067200000) = 1"
    by blast
  with f d(2) r show ?thesis by simp
qed

section \<open>Editing a custom event type\<close>

text \<open>
  The dictionary operations on \<open>customEvents\<close>: reading a key, assigning to a key (an
  existing key keeps its place, a new key goes to the end) and \<open>delete\<close>.
\<close>

definition obj_get :: "(string \<times> 'v) list \<Rightarrow> string \<Rightarrow> 'v option" where
  "obj_get obj k = map_of obj k"

fun obj_set :: "string \<Rightarrow> 'v \<Rightarrow> (string \<times> 'v) list \<Rightarrow> (string \<times> 'v) list" where
  "obj_set k v [] = [(k, v)]"
| "obj_set k v (p # ps) = (if fst p = k then (k, v) # ps else p # obj_set k v ps)"

definition obj_delete :: "string \<Rightarrow> (string \<times> 'v) list \<Rightarrow> (string \<times> 'v) list" where
  "obj_delete k obj = filter (\<lambda>p. fst p \<noteq> k) obj"

fun findIndex :: "('a \<Rightarrow> bool) \<Rightarrow> 'a list \<Rightarrow> nat option" where
  \<comment> \<open>\<open>None\<close> is the \<open>-1\<close> of \<open>findIndex\<close>.\<close>
  "findIndex P [] = None"
| "findIndex P (x # xs) = (if P x then Some 0 else map_option Suc (findIndex P xs))"

definition builtInTypes :: "CustomEventType list" where
  "builtInTypes =
     [\<lparr>name = ''Major Life'', color = ''#4CAF50''\<rparr>,
      \<lparr>name = ''Travel'', color = ''#2196F3''\<rparr>,
      \<lparr>name = ''Relationship'', color = ''#E91E63''\<rparr>,
      \<lparr>name = ''Education/Career'', color = ''#9C27B0''\<rparr>]"

datatype notice =
    PleaseEnterName      \<comment> \<open>"Please enter a name for the event type"\<close>
  | NameAlreadyExists    \<comment> \<open>"An event type with this name already exists"\<close>
  | TypeUpdated string   \<comment> \<open>"Event type updated to ..."\<close>

definition showEditTypeModal_save ::
  "CustomEventType \<Rightarrow> string \<Rightarrow> string \<Rightarrow> ChronosSettings \<Rightarrow> notice option \<times> ChronosSettings"
where
  \<comment> \<open>The click handler of "Save Changes" in \<open>showEditTypeModal(type)\<close>, with the values
      of the name and colour inputs: the notice it shows and the settings it leaves.\<close>
  "showEditTypeModal_save type nameInput colorInput settings =
     (let newName = trim nameInput in
      if newName = [] then (Some PleaseEnterName, settings)
      else if newName \<noteq> name type
              \<and> list_ex (\<lambda>t. name t = newName) (customEventTypes settings)
      then (Some NameAlreadyExists, settings)
      else (let settings1 =
                  (if newName \<noteq> name type
                   then settings\<lparr>customEvents :=
                          obj_delete (name type)
                            (obj_set newName
                               (case obj_get (customEvents settings) (name type) of
                                  Some events \<Rightarrow> events | None \<Rightarrow> [])
                               (customEvents settings))\<rparr>
                   else settings);
                typeIndex = findIndex (\<lambda>t. name t = name type) (customEventTypes settings1)
            in case typeIndex of
                 Some i \<Rightarrow>
                   (Some (TypeUpdated newName),
                    settings1\<lparr>customEventTypes :=
                       (customEventTypes settings1)[i := \<lparr>name = newName, color = colorInput\<rparr>]\<rparr>)
               | None \<Rightarrow> (None, settings1)))"

text \<open>
  Claim C4, as stated: renaming a custom type to the name of any existing type, built-in
  or custom, is rejected and changes nothing. The handler compares the new name with
  the custom types only, as the handler that adds a type does: renaming the custom
  type \<open>Trips\<close> to the built-in name \<open>Travel\<close> goes through, and its events move to the
  key \<open>Travel\<close>.
\<close>

theorem rename_to_builtin_name_is_accepted:
  "''Travel'' \<in> set (map name builtInTypes)
   \<and> showEditTypeModal_save \<lparr>name = ''Trips'', color = ''#FF9800''\<rparr> ''Travel'' ''#FF9800''
        (DEFAULT_SETTINGS\<lparr>blueEvents := [''2024-W02:Paris''],
           customEventTypes := [\<lparr>name = ''Trips'', color = ''#FF9800''\<rparr>],
           customEvents := [(''Trips'', [''2024-W05:Rome''])]\<rparr>)
      = (Some (TypeUpdated ''Travel''),
         DEFAULT_SETTINGS\<lparr>blueEvents := [''2024-W02:Paris''],
           customEventTypes := [\<lparr>name = ''Travel'', color = ''#FF9800''\<rparr>],
           customEvents := [(''Travel'', [''2024-W05:Rome''])]\<rparr>)"
  by (simp add: showEditTypeModal_save_def builtInTypes_def DEFAULT_SETTINGS_def trim_def
      is_whitespace_def obj_get_def obj_delete_def Let_def)

text \<open>
  Claim C4, amended. Renaming a custom type to the name of another custom type is
  rejected with the notice "An event type with this name already exists", and the
  settings (the type list and every event collection) are left as they were. A
  built-in name that no custom type has is not rejected.
\<close>

theorem rename_to_custom_name_is_rejected:
  "(trim nameInput \<noteq> [] \<and> trim nameInput \<noteq> name ty
      \<and> trim nameInput \<in> set (map name (customEventTypes s))
    \<longrightarrow> showEditTypeModal_save ty nameInput colorInput s = (Some NameAlreadyExists, s))
   \<and> (trim nameInput \<in> set (map name builtInTypes)
      \<and> trim nameInput \<notin> set (map name (customEventTypes s))
    \<longrightarrow> fst (showEditTypeModal_save ty nameInput colorInput s) \<noteq> Some NameAlreadyExists)"
proof (intro conjI impI)
  assume "trim nameInput \<noteq> [] \<and> trim nameInput \<noteq> name ty
      \<and> trim nameInput \<in> set (map name (customEventTypes s))"
  then have "trim nameInput \<noteq> []" "trim nameInput \<noteq> name ty"
    "list_ex (\<lambda>t. name t = trim nameInput) (customEventTypes s)"
    by (auto simp add: list_ex_iff)
  then show "showEditTypeModal_save ty nameInput colorInput s = (Some NameAlreadyExists, s)"
    by (simp add: showEditTypeModal_save_def Let_def)
next
  assume a: "trim nameInput \<in> set (map name builtInTypes)
      \<and> trim nameInput \<notin> set (map name (customEventTypes s))"
  then have ne: "trim nameInput \<noteq> []"
    by (auto simp add: builtInTypes_def)
  from a have "trim nameInput \<notin> name ` set (customEventTypes s)"
    by simp
  then have "\<not> list_ex (\<lambda>t. name t = trim nameInput) (customEventTypes s)"
    unfolding list_ex_iff by (metis imageI)
  with ne show "fst (showEditTypeModal_save ty nameInput colorInput s) \<noteq> Some NameAlreadyExists"
    by (simp add: showEditTypeModal_save_def Let_def split: option.splits)
qed

theorem rename_to_custom_name_is_rejected_witness:
  "trim '' Work '' \<noteq> [] \<and> trim '' Work '' \<noteq> name \<lparr>name = ''Trips'', color = ''#FF9800''\<rparr>
   \<and> trim '' Work '' \<in> set (map name
        [\<lparr>name = ''Trips'', color = ''#FF9800''\<rparr>, \<lparr>name = ''Work'', color = ''#795548''\<rparr>])
   \<and> showEditTypeModal_save \<lparr>name = ''Trips'', color = ''#FF9800''\<rparr> '' Work '' ''#FF9800''
        (DEFAULT_SETTINGS\<lparr>
           customEventTypes := [\<lparr>name = ''Trips'', color = ''#FF9800''\<rparr>,
                                \<lparr>name = ''Work'', color = ''#795548''\<rparr>],
           customEvents := [(''Trips'', [''2024-W05:Rome'']), (''Work'', [])]\<rparr>)
      = (Some NameAlreadyExists,
         DEFAULT_SETTINGS\<lparr>
           customEventTypes := [\<lparr>name = ''Trips'', color = ''#FF9800''\<rparr>,
                                \<lparr>name = ''Work'', color = ''#795548''\<rparr>],
           customEvents := [(''Trips'', [''2024-W05:Rome'']), (''Work'', [])]\<rparr>)
   \<and> trim ''Travel'' \<in> set (map name builtInTypes)
   \<and> trim ''Travel'' \<notin> set (map name
        [\<lparr>name = ''Trips'', color = ''#FF9800''\<rparr>, \<lparr>name = ''Work'', color = ''#795548''\<rparr>])
   \<and> fst (showEditTypeModal_save \<lparr>name = ''Trips'', color = ''#FF9800''\<rparr> ''Travel'' ''#FF9800''
        (DEFAULT_SETTINGS\<lparr>
           customEventTypes := [\<lparr>name = ''Trips'', color = ''#FF9800''\<rparr>,
                                \<lparr>name = ''Work'', color = ''#795548''\<rparr>],
           customEvents := [(''Trips'', [''2024-W05:Rome'']), (''Work'', [])]\<rparr>))
      \<noteq> Some NameAlreadyExists"
proof -
  let ?ty = "\<lparr>name = ''Trips'', color = ''#FF9800''\<rparr>"
  let ?s = "DEFAULT_SETTINGS\<lparr>
           customEventTypes := [\<lparr>name = ''Trips'', color = ''#FF9800''\<rparr>,
                                \<lparr>name = ''Work'', color = ''#795548''\<rparr>],
           customEvents := [(''Trips'', [''2024-W05:Rome'']), (''Work'', [])]\<rparr>"
  have t: "trim '' Work '' = ''Work''" "trim ''Travel'' = ''Travel''"
    by (simp_all add: trim_def is_whitespace_def)
  have h1: "trim '' Work '' \<noteq> [] \<and> trim '' Work '' \<noteq> name ?ty
      \<and> trim '' Work '' \<in> set (map name (customEventTypes ?s))"
    by (simp add: t)
  have h2: "trim ''Travel'' \<in> set (map name builtInTypes)
      \<and> trim ''Travel'' \<notin> set (map name (customEventTypes ?s))"
    by (simp add: t builtInTypes_def)
  from rename_to_custom_name_is_rejected[of "'' Work ''" ?ty ?s "''#FF9800''"] h1
  have r1: "showEditTypeModal_save ?ty '' Work '' ''#FF9800'' ?s = (Some NameAlreadyExists, ?s)"
    by blast
  from rename_to_custom_name_is_rejected[of "''Travel''" ?ty ?s "''#FF9800''"] h2
  have r2: "fst (showEditTypeModal_save ?ty ''Travel'' ''#FF9800'' ?s) \<noteq> Some NameAlreadyExists"
    by blast
  from h1 h2 r1 r2 show ?thesis by (simp add: t)
qed

section \<open>Event styling of a cell\<close>

text \<open>
  What \<open>applyEventStyling\<close> reads and writes of a grid cell: its background colour, its
  classes and its \<open>title\<close> attribute (\<open>None\<close> when the attribute is absent).
\<close>

record cell =
  backgroundColor :: string
  classList :: "string list"
  title :: "string option"

definition addClass :: "string \<Rightarrow> cell \<Rightarrow> cell" where
  "addClass cls c =
     (if cls \<in> set (classList c) then c else c\<lparr>classList := classList c @ [cls]\<rparr>)"

definition str_at :: "string list \<Rightarrow> nat \<Rightarrow> string option" where
  \<comment> \<open>\<open>parts[i]\<close>; \<open>None\<close> is \<open>undefined\<close>.\<close>
  "str_at parts i = (if i < length parts then Some (parts ! i) else None)"

definition parseInt_at :: "string list \<Rightarrow> nat \<Rightarrow> int option" where
  \<comment> \<open>\<open>parseInt(parts[i])\<close>; \<open>parseInt(undefined)\<close> is \<open>NaN\<close>.\<close>
  "parseInt_at parts i = (case str_at parts i of None \<Rightarrow> None | Some s \<Rightarrow> parseInt s)"

definition or_default :: "string option \<Rightarrow> string \<Rightarrow> string" where
  \<comment> \<open>\<open>x || d\<close> for a string \<open>x\<close> that may be \<open>undefined\<close>, \<open>null\<close> or empty.\<close>
  "or_default x d = (case x of None \<Rightarrow> d | Some s \<Rightarrow> if s = [] then d else s)"

definition rangeEventData :: "string \<Rightarrow> string \<Rightarrow> string \<Rightarrow> string" where
  \<comment> \<open>the record of a range event, \<open>`${startWeekKey}:${endWeekKey}:${description}`\<close>\<close>
  "rangeEventData startWeekKey endWeekKey description =
     startWeekKey @ '':'' @ endWeekKey @ '':'' @ description"

definition isRangeEvent :: "string \<Rightarrow> bool" where
  "isRangeEvent e =
     (let parts = split '':'' e
      in length parts \<ge> 3 \<and> includes_str ''W'' 0 (parts ! 0) \<and> includes_str ''W'' 0 (parts ! 1))"

definition isInRange :: "string \<Rightarrow> string \<Rightarrow> string \<Rightarrow> bool" where
  "isInRange weekKey startWeekKey endWeekKey =
     (let startYear = parseInt_at (split ''-W'' startWeekKey) 0;
          startWeek = parseInt_at (split ''-W'' startWeekKey) 1;
          endYear = parseInt_at (split ''-W'' endWeekKey) 0;
          endWeek = parseInt_at (split ''-W'' endWeekKey) 1;
          cellYear = parseInt_at (split ''-W'' weekKey) 0;
          cellWeek = parseInt_at (split ''-W'' weekKey) 1
      in (js_gt cellYear startYear \<or> (js_eq cellYear startYear \<and> js_ge cellWeek startWeek))
         \<and> (js_lt cellYear endYear \<or> (js_eq cellYear endYear \<and> js_le cellWeek endWeek)))"

fun rangeEvents_loop :: "string list \<Rightarrow> string \<Rightarrow> string \<Rightarrow> string \<Rightarrow> cell \<Rightarrow> bool \<times> cell" where
  "rangeEvents_loop [] defaultColor defaultDesc weekKey c = (False, c)"
| "rangeEvents_loop (rangeEvent # rest) defaultColor defaultDesc weekKey c =
     (let parts = split '':'' rangeEvent;
          startWeekKey = or_default (str_at parts 0) [];
          endWeekKey = or_default (str_at parts 1) [];
          description = str_at parts 2
      in if startWeekKey = [] \<or> endWeekKey = []
         then rangeEvents_loop rest defaultColor defaultDesc weekKey c
         else if isInRange weekKey startWeekKey endWeekKey
         then (let eventDesc = or_default description defaultDesc;
                   currentTitle = or_default (title c) []
               in (True,
                   (addClass ''event'' (c\<lparr>backgroundColor := defaultColor\<rparr>))
                     \<lparr>title := Some (eventDesc @ '' ('' @ startWeekKey @ '' to '' @ endWeekKey
                                      @ '')'' @ [CHR 0x0A] @ currentTitle)\<rparr>))
         else rangeEvents_loop rest defaultColor defaultDesc weekKey c)"

definition applyEventStyle :: "string list \<Rightarrow> string \<Rightarrow> string \<Rightarrow> string \<Rightarrow> cell \<Rightarrow> bool \<times> cell" where
  \<comment> \<open>The helper of \<open>applyEventStyling\<close>; \<open>weekKey\<close> and the cell are those of its closure.\<close>
  "applyEventStyle events defaultColor defaultDesc weekKey c =
     (case find (\<lambda>e. startsWith (weekKey @ '':'') e \<and> \<not> includes_str '':'' 10 e) events of
        Some singleEvent \<Rightarrow>
          (let description = or_default (str_at (split '':'' singleEvent) 1) defaultDesc;
               currentTitle = or_default (title c) []
           in (True,
               (addClass ''event'' (c\<lparr>backgroundColor := defaultColor\<rparr>))
                 \<lparr>title := Some (description @ [CHR 0x0A] @ currentTitle)\<rparr>))
      | None \<Rightarrow>
          rangeEvents_loop (filter isRangeEvent events) defaultColor defaultDesc weekKey c)"

fun customEvents_loop ::
  "(string \<times> string list) list \<Rightarrow> CustomEventType list \<Rightarrow> string \<Rightarrow> cell \<Rightarrow> cell" where
  \<comment> \<open>\<open>for (const [typeName, events] of Object.entries(customEvents))\<close>: the result of
      \<open>applyEventStyle\<close> is not looked at and the loop goes on.\<close>
  "customEvents_loop [] types weekKey c = c"
| "customEvents_loop ((typeName, events) # rest) types weekKey c =
     (case find (\<lambda>t. name t = typeName) types of
        Some customType \<Rightarrow>
          (if length events > 0
           then customEvents_loop rest types weekKey
                  (snd (applyEventStyle events (color customType) typeName weekKey c))
           else customEvents_loop rest types weekKey c)
      | None \<Rightarrow> customEvents_loop rest types weekKey c)"

definition applyEventTypes :: "ChronosSettings \<Rightarrow> string \<Rightarrow> cell \<Rightarrow> cell" where
  \<comment> \<open>The first part of \<open>applyEventStyling\<close>: the chain over the built-in collections and
      the loop over the custom ones.\<close>
  "applyEventTypes settings weekKey c =
     (let green = applyEventStyle (greenEvents settings) ''#4CAF50'' ''Major Life Event'' weekKey c
      in if fst green then snd green
         else (let blue = applyEventStyle (blueEvents settings) ''#2196F3'' ''Travel'' weekKey c
               in if fst blue then snd blue
                  else (let pink = applyEventStyle (pinkEvents settings) ''#E91E63''
                                     ''Relationship'' weekKey c
                        in if fst pink then snd pink
                           else (let purple = applyEventStyle (purpleEvents settings) ''#9C27B0''
                                                ''Education/Career'' weekKey c
                                 in if fst purple then snd purple
                                    else customEvents_loop (customEvents settings)
                                           (customEventTypes settings) weekKey c))))"

definition highlightCellDate :: "Date \<Rightarrow> string \<Rightarrow> Date option" where
  \<comment> \<open>\<open>cellDate\<close>: today with the year of the key and the day of the month set to
      \<open>1 + (week - 1) * 7\<close>; invalid when the key does not parse.\<close>
  "highlightCellDate now weekKey =
     (let parts = split ''-W'' weekKey in
      case (parseInt_at parts 0, parseInt_at parts 1) of
        (Some y, Some w) \<Rightarrow> Some (setDate (setFullYear now y) (1 + (w - 1) * 7))
      | _ \<Rightarrow> None)"

definition applyEventStyling :: "ChronosSettings \<Rightarrow> Date \<Rightarrow> string \<Rightarrow> cell \<Rightarrow> cell" where
  \<comment> \<open>\<open>now\<close> is the \<open>new Date()\<close> of the call.\<close>
  "applyEventStyling settings now weekKey c =
     (let c1 = applyEventTypes settings weekKey c;
          c2 = (case highlightCellDate now weekKey of
                  Some cellDate \<Rightarrow>
                    if cellDate > now \<and> cellDate < now + 6 * 30 * 24 * 60 * 60 * 1000
                       \<and> ''event'' \<in> set (classList c1)
                    then addClass ''future-event-highlight'' c1 else c1
                | None \<Rightarrow> c1)
      in if weekKey \<in> set (filledWeeks settings)
         then (let c3 = addClass ''filled-week'' c2
               in if ''event'' \<notin> set (classList c3)
                  then c3\<lparr>backgroundColor := ''#8bc34a''\<rparr> else c3)
         else c2)"

lemmas event_defs = addClass_def str_at_def parseInt_at_def or_default_def rangeEventData_def
  isRangeEvent_def isInRange_def applyEventStyle_def applyEventTypes_def highlightCellDate_def
  applyEventStyling_def js_lt_def js_le_def js_gt_def js_ge_def js_eq_def

text \<open>
  Claim C5. The claim: the categories are probed in the order Major Life, Travel,
  Relationship, Education/Career, then the custom ones in their stored order, and the
  styling of exactly one category, the first with a matching record, is applied. The
  chain over the built-in collections stops at the first match; the loop over the
  custom collections does not stop: it styles the cell again for every custom type
  with a matching record. With the custom types \<open>Hobby\<close> and \<open>Sport\<close>, each with an
  event in week \<open>2024-W05\<close>, \<open>Hobby\<close> is the first category that matches, and the cell
  ends with the colour of \<open>Sport\<close> and the descriptions of both in its title.
\<close>

theorem applyEventStyling_last_custom_type_wins:
  "fst (applyEventStyle [''2024-W05:Chess''] ''#111111'' ''Hobby'' ''2024-W05''
          \<lparr>backgroundColor = ''#d8e2e6'', classList = [''chronos-grid-cell'', ''future''],
           title = Some ''Week 5, 2024''\<rparr>)
   \<and> applyEventStyling
        (DEFAULT_SETTINGS\<lparr>
           customEventTypes := [\<lparr>name = ''Hobby'', color = ''#111111''\<rparr>,
                                \<lparr>name = ''Sport'', color = ''#222222''\<rparr>],
           customEvents := [(''Hobby'', [''2024-W05:Chess'']), (''Sport'', [''2024-W05:Run''])]\<rparr>)
        1704067200000 ''2024-W05''
        \<lparr>backgroundColor = ''#d8e2e6'', classList = [''chronos-grid-cell'', ''future''],
         title = Some ''Week 5, 2024''\<rparr>
      = \<lparr>backgroundColor = ''#222222'',
         classList = [''chronos-grid-cell'', ''future'', ''event'', ''future-event-highlight''],
         title = Some (''Run'' @ [CHR 0x0A] @ ''Chess'' @ [CHR 0x0A] @ ''Week 5, 2024'')\<rparr>"
  by (simp add: event_defs DEFAULT_SETTINGS_def date_defs str_defs Let_def cong: let_weak_cong)

section \<open>Week keys and range records as strings\<close>

lemma digit_value_digit_char: "d < 10 \<Longrightarrow> digit_value (digit_char d) = Some d"
proof -
  assume "d < 10"
  then have "d \<in> {0, 1, 2, 3, 4, 5, 6, 7, 8, 9}" by auto
  then show ?thesis
    by (auto simp add: digit_char_def digit_value_def)
qed

lemma is_digit_digit_char: "d < 10 \<Longrightarrow> is_digit_in 10 (digit_char d)"
  by (simp add: is_digit_in_def digit_value_digit_char)

lemma is_digit_code: "is_digit_in 10 c \<Longrightarrow> 48 \<le> (of_char c :: nat) \<and> (of_char c :: nat) \<le> 57"
  by (auto simp add: is_digit_in_def digit_value_def Let_def split: if_splits)

lemma is_digit_not_special:
  assumes "is_digit_in 10 c"
  shows "c \<noteq> CHR ''-''" "c \<noteq> CHR ''+''" "c \<noteq> CHR '':''" "c \<noteq> CHR ''W''"
    "c \<noteq> CHR ''x''" "c \<noteq> CHR ''X''" "\<not> is_whitespace c"
  using is_digit_code[OF assms] by (auto simp add: is_whitespace_def)

lemma nat_to_string_digits: "list_all (is_digit_in 10) (nat_to_string n)"
proof (induction n rule: nat_to_string.induct)
  case (1 n)
  show ?case
  proof (cases "n < 10")
    case True
    then show ?thesis
      by (subst nat_to_string.simps) (simp add: is_digit_digit_char)
  next
    case False
    with 1 show ?thesis
      by (subst nat_to_string.simps) (simp add: is_digit_digit_char)
  qed
qed

lemma nat_to_string_nonempty: "nat_to_string n \<noteq> []"
  by (subst nat_to_string.simps) simp

lemma digits_value_snoc:
  "digits_value r (ds @ [c]) = r * digits_value r ds + the (digit_value c)"
  by (simp add: digits_value_def)

lemma digits_value_nat_to_string: "digits_value 10 (nat_to_string n) = n"
proof (induction n rule: nat_to_string.induct)
  case (1 n)
  show ?case
  proof (cases "n < 10")
    case True
    then show ?thesis
      by (subst nat_to_string.simps) (simp add: digits_value_def digit_value_digit_char)
  next
    case False
    with 1 have "digits_value 10 (nat_to_string (n div 10)) = n div 10" by simp
    with False show ?thesis
      by (subst nat_to_string.simps) (simp add: digits_value_snoc digit_value_digit_char)
  qed
qed
































section \<open>Month markers\<close>

record MonthMarker =
  weekIndex :: int
  label :: string
  isFirstOfYear :: bool
  isBirthMonth :: bool
  fullLabel :: string

definition shouldShowMonth :: "string \<Rightarrow> int \<Rightarrow> bool" where
  "shouldShowMonth frequency monthNum =
     (if monthNum = 0 then True
      else if frequency = ''all'' then True
      else if frequency = ''quarter'' then monthNum mod 3 = 0
      else if frequency = ''half-year'' then monthNum mod 6 = 0
      else if frequency = ''year'' then monthNum = 0
      else True)"

definition monthMarker :: "Date \<Rightarrow> Date \<Rightarrow> MonthMarker" where
  \<comment> \<open>The marker that the loop of \<open>calculateMonthMarkers\<close> pushes for \<open>currentDate\<close>.\<close>
  "monthMarker birthdayDate currentDate =
     (let currentMonth = getMonth currentDate;
          currentYear = getFullYear currentDate;
          birthMonth = getMonth birthdayDate;
          birthYear = getFullYear birthdayDate;
          daysSinceBirth = (getTime currentDate - getTime birthdayDate) div (1000 * 60 * 60 * 24);
          exactWeekIndex = daysSinceBirth div 7
      in \<lparr>weekIndex = exactWeekIndex,
          label = MONTH_NAMES ! nat currentMonth,
          isFirstOfYear = (currentMonth = 0),
          isBirthMonth = (currentMonth = birthMonth \<and> currentYear = birthYear),
          fullLabel = MONTH_NAMES ! nat currentMonth @ '' '' @ Number_toString currentYear\<rparr>)"

function monthMarkers_loop ::
  "Date \<Rightarrow> string \<Rightarrow> Date \<Rightarrow> Date \<Rightarrow> int \<Rightarrow> int \<Rightarrow> MonthMarker list \<Rightarrow> MonthMarker list"
where
  "monthMarkers_loop birthdayDate frequency endDate currentDate lastShownMonth lastShownYear
      monthMarkers =
     (if currentDate < endDate
      then (let currentMonth = getMonth currentDate;
                currentYear = getFullYear currentDate
            in if (currentMonth \<noteq> lastShownMonth \<or> currentYear \<noteq> lastShownYear)
                  \<and> shouldShowMonth frequency currentMonth
               then monthMarkers_loop birthdayDate frequency endDate
                      (setDate currentDate (getDate currentDate + 1)) currentMonth currentYear
                      (monthMarkers @ [monthMarker birthdayDate currentDate])
               else monthMarkers_loop birthdayDate frequency endDate
                      (setDate currentDate (getDate currentDate + 1)) lastShownMonth
                      lastShownYear monthMarkers)
      else monthMarkers)"
  by pat_completeness auto
termination
  by (relation "measure (\<lambda>(birthdayDate, frequency, endDate, currentDate, lastShownMonth,
          lastShownYear, monthMarkers). nat (endDate - currentDate))")
     (auto simp add: setDate_getDate_add msPerDay_def)

declare monthMarkers_loop.simps [simp del]

definition calculateMonthMarkers :: "Date \<Rightarrow> int \<Rightarrow> string \<Rightarrow> MonthMarker list" where
  \<comment> \<open>The comparator of the final \<open>sort\<close> is \<open>a.weekIndex - b.weekIndex\<close>; the sort is
      stable.\<close>
  "calculateMonthMarkers birthdayDate totalYears frequency =
     (let startDate = birthdayDate;
          endDate = setFullYear birthdayDate (getFullYear birthdayDate + totalYears);
          monthMarkers = monthMarkers_loop birthdayDate frequency endDate startDate (- 1) (- 1) []
      in sort_key weekIndex monthMarkers)"

subsection \<open>Months follow each other along the days\<close>

lemma month_of_yday_mono: "n \<le> n' \<Longrightarrow> month_of_yday leap n \<le> month_of_yday leap n'"
  unfolding month_of_yday_def by (auto split: if_splits)

definition month_ord :: "Date \<Rightarrow> int" where
  \<comment> \<open>the months since year 0 of a date: a number for its (year, month)\<close>
  "month_ord t = 12 * getFullYear t + getMonth t"

lemma month_ord_mono:
  assumes "t \<le> t'"
  shows "month_ord t \<le> month_ord t'"
proof -
  have d: "Day t \<le> Day t'"
    using assms by (simp add: Day_def msPerDay_def zdiv_mono1)
  then have y: "getFullYear t \<le> getFullYear t'"
    by (simp add: getFullYear_def YearFromDay_mono)
  show ?thesis
  proof (cases "getFullYear t = getFullYear t'")
    case True
    then have "YearFromDay (Day t) = YearFromDay (Day t')"
      by (simp add: getFullYear_def)
    with d have "DayWithinYear (Day t) \<le> DayWithinYear (Day t')"
      by (simp add: DayWithinYear_def)
    then have "getMonth t \<le> getMonth t'"
      using True by (simp add: getMonth_def month_of_yday_mono)
    with True show ?thesis by (simp add: month_ord_def)
  next
    case False
    with y have "getFullYear t + 1 \<le> getFullYear t'" by simp
    with getMonth_range[of t] getMonth_range[of t'] show ?thesis
      by (simp add: month_ord_def)
  qed
qed

lemma month_ord_eq:
  assumes "month_ord t = 12 * y + m" "0 \<le> m" "m \<le> 11"
  shows "getMonth t = m \<and> getFullYear t = y"
proof -
  have e: "12 * getFullYear t + getMonth t = 12 * y + m"
    using assms(1) by (simp add: month_ord_def)
  have "getFullYear t = y"
  proof (rule ccontr)
    assume "getFullYear t \<noteq> y"
    then consider "getFullYear t + 1 \<le> y" | "y + 1 \<le> getFullYear t" by linarith
    then show False
    proof cases
      case 1
      with e getMonth_range[of t] assms(2) show False by linarith
    next
      case 2
      with e getMonth_range[of t] assms(3) show False by linarith
    qed
  qed
  with e show ?thesis by simp
qed

subsection \<open>A full label names its month\<close>

lemma Number_toString_inj:
  assumes "Number_toString a = Number_toString b"
  shows "a = b"
proof -
  have hd_digit: "\<And>n. hd (nat_to_string n) \<noteq> CHR ''-''"
  proof -
    fix n
    have "list_all (is_digit_in 10) (nat_to_string n)" by (rule nat_to_string_digits)
    with nat_to_string_nonempty[of n] have "is_digit_in 10 (hd (nat_to_string n))"
      by (cases "nat_to_string n") simp_all
    then show "hd (nat_to_string n) \<noteq> CHR ''-''" by (rule is_digit_not_special(1))
  qed
  have inj: "\<And>m n. nat_to_string m = nat_to_string n \<Longrightarrow> m = n"
    by (metis digits_value_nat_to_string)
  show ?thesis
  proof (cases "a < 0")
    case a: True
    show ?thesis
    proof (cases "b < 0")
      case True
      with a assms have "nat (- a) = nat (- b)"
        by (simp add: Number_toString_def inj)
      with a True show ?thesis by simp
    next
      case False
      with a assms have "CHR ''-'' # nat_to_string (nat (- a)) = nat_to_string (nat b)"
        by (simp add: Number_toString_def)
      then have "hd (nat_to_string (nat b)) = CHR ''-''" by (metis list.sel(1))
      with hd_digit show ?thesis by blast
    qed
  next
    case a: False
    show ?thesis
    proof (cases "b < 0")
      case True
      with a assms have "nat_to_string (nat a) = CHR ''-'' # nat_to_string (nat (- b))"
        by (simp add: Number_toString_def)
      then have "hd (nat_to_string (nat a)) = CHR ''-''" by (metis list.sel(1))
      with hd_digit show ?thesis by blast
    next
      case False
      with a assms have "nat a = nat b"
        by (simp add: Number_toString_def inj)
      with a False show ?thesis by simp
    qed
  qed
qed

definition monthLabel :: "int \<Rightarrow> int \<Rightarrow> string" where
  \<comment> \<open>the template \<open>`${MONTH_NAMES[currentMonth]} ${currentYear}`\<close>\<close>
  "monthLabel m y = MONTH_NAMES ! nat m @ '' '' @ Number_toString y"

lemma MONTH_NAMES_length:
  assumes "0 \<le> m" "m \<le> 11"
  shows "length (MONTH_NAMES ! nat m) = 3"
proof -
  have "list_all (\<lambda>s. length s = 3) MONTH_NAMES"
    by (simp add: MONTH_NAMES_def)
  moreover have "nat m < length MONTH_NAMES"
    using assms by (simp add: MONTH_NAMES_def)
  ultimately show ?thesis
    by (simp add: list_all_length)
qed

lemma MONTH_NAMES_inj:
  assumes "0 \<le> m" "m \<le> 11" "0 \<le> m'" "m' \<le> 11" "MONTH_NAMES ! nat m = MONTH_NAMES ! nat m'"
  shows "m = m'"
proof -
  have "distinct MONTH_NAMES" by (simp add: MONTH_NAMES_def)
  moreover have "nat m < length MONTH_NAMES" "nat m' < length MONTH_NAMES"
    using assms(1-4) by (simp_all add: MONTH_NAMES_def)
  ultimately have "nat m = nat m'"
    using assms(5) by (simp add: nth_eq_iff_index_eq)
  with assms(1,3) show ?thesis by simp
qed

lemma monthLabel_inj:
  assumes "0 \<le> m" "m \<le> 11" "0 \<le> m'" "m' \<le> 11" "monthLabel m y = monthLabel m' y'"
  shows "m = m' \<and> y = y'"
proof -
  have "length (MONTH_NAMES ! nat m) = length (MONTH_NAMES ! nat m')"
    using assms(1-4) by (simp add: MONTH_NAMES_length)
  with assms(5) have "MONTH_NAMES ! nat m = MONTH_NAMES ! nat m'"
    and "Number_toString y = Number_toString y'"
    by (simp_all add: monthLabel_def)
  then show ?thesis
    using assms(1-4) by (simp add: MONTH_NAMES_inj Number_toString_inj)
qed

lemma monthMarker_fields:
  "fullLabel (monthMarker b t) = monthLabel (getMonth t) (getFullYear t)"
  "label (monthMarker b t) = MONTH_NAMES ! nat (getMonth t)"
  "isFirstOfYear (monthMarker b t) = (getMonth t = 0)"
  by (simp_all add: monthMarker_def monthLabel_def Let_def)

lemma same_month_same_label:
  assumes "month_ord t = month_ord t'"
  shows "fullLabel (monthMarker b t) = fullLabel (monthMarker b t')"
proof -
  have "month_ord t = 12 * getFullYear t' + getMonth t'"
    using assms by (simp only: month_ord_def)
  then have "getMonth t = getMonth t' \<and> getFullYear t = getFullYear t'"
    by (rule month_ord_eq) (rule getMonth_range)+
  then show ?thesis by (simp add: monthMarker_fields)
qed

lemma same_label_same_month:
  assumes "fullLabel (monthMarker b t) = fullLabel (monthMarker b t')"
  shows "month_ord t = month_ord t'"
proof -
  have "monthLabel (getMonth t) (getFullYear t) = monthLabel (getMonth t') (getFullYear t')"
    using assms by (simp only: monthMarker_fields)
  then have "getMonth t = getMonth t' \<and> getFullYear t = getFullYear t'"
    by (intro monthLabel_inj getMonth_range)
  then show ?thesis by (simp add: month_ord_def)
qed

subsection \<open>The loop of \<open>calculateMonthMarkers\<close>\<close>

definition loopDay :: "Date \<Rightarrow> nat \<Rightarrow> Date" where
  \<comment> \<open>\<open>currentDate\<close> in the \<open>k\<close>-th round of the loop: the birthday plus \<open>k\<close> days\<close>
  "loopDay b k = b + int k * msPerDay"

lemma loopDay_mono: "k \<le> k' \<Longrightarrow> loopDay b k \<le> loopDay b k'"
  by (simp add: loopDay_def msPerDay_def)

lemma loopDay_next: "setDate (loopDay b j) (getDate (loopDay b j) + 1) = loopDay b (Suc j)"
proof -
  have "setDate (loopDay b j) (getDate (loopDay b j) + 1) = loopDay b j + 1 * msPerDay"
    by (rule setDate_getDate_add)
  also have "\<dots> = loopDay b (Suc j)"
    by (simp add: loopDay_def algebra_simps)
  finally show ?thesis .
qed

definition markers_inv ::
  "Date \<Rightarrow> string \<Rightarrow> Date \<Rightarrow> nat \<Rightarrow> int \<Rightarrow> int \<Rightarrow> MonthMarker list \<Rightarrow> bool" where
  \<comment> \<open>What holds of the loop's variables when \<open>currentDate\<close> is \<open>loopDay b j\<close>: the full labels
      of the markers are distinct; every month to show that an earlier round met has a
      marker; every marker is the marker of an earlier round with a month to show; no
      earlier month to show is later than the last shown one; and the last shown month
      is that of an earlier round, unless nothing was shown yet.\<close>
  "markers_inv b f e j lm ly acc \<longleftrightarrow>
     distinct (map fullLabel acc)
     \<and> (\<forall>k<j. loopDay b k < e \<and> shouldShowMonth f (getMonth (loopDay b k))
           \<longrightarrow> (\<exists>k'<j. month_ord (loopDay b k') = month_ord (loopDay b k)
                    \<and> monthMarker b (loopDay b k') \<in> set acc))
     \<and> (\<forall>m\<in>set acc. \<exists>k<j. loopDay b k < e \<and> shouldShowMonth f (getMonth (loopDay b k))
                    \<and> m = monthMarker b (loopDay b k))
     \<and> (\<forall>k<j. loopDay b k < e \<and> shouldShowMonth f (getMonth (loopDay b k))
           \<longrightarrow> month_ord (loopDay b k) \<le> 12 * ly + lm)
     \<and> ((lm = - 1 \<and> acc = [])
         \<or> (\<exists>k<j. getMonth (loopDay b k) = lm \<and> getFullYear (loopDay b k) = ly
                \<and> loopDay b k < e \<and> shouldShowMonth f lm))"

lemma markers_invD:
  assumes "markers_inv b f e j lm ly acc"
  shows "distinct (map fullLabel acc)"
    and "\<forall>k<j. loopDay b k < e \<and> shouldShowMonth f (getMonth (loopDay b k))
           \<longrightarrow> (\<exists>k'<j. month_ord (loopDay b k') = month_ord (loopDay b k)
                    \<and> monthMarker b (loopDay b k') \<in> set acc)"
    and "\<forall>m\<in>set acc. \<exists>k<j. loopDay b k < e \<and> shouldShowMonth f (getMonth (loopDay b k))
                    \<and> m = monthMarker b (loopDay b k)"
    and "\<forall>k<j. loopDay b k < e \<and> shouldShowMonth f (getMonth (loopDay b k))
           \<longrightarrow> month_ord (loopDay b k) \<le> 12 * ly + lm"
    and "(lm = - 1 \<and> acc = [])
         \<or> (\<exists>k<j. getMonth (loopDay b k) = lm \<and> getFullYear (loopDay b k) = ly
                \<and> loopDay b k < e \<and> shouldShowMonth f lm)"
proof -
  note a = assms[unfolded markers_inv_def]
  show "distinct (map fullLabel acc)"
    by (rule a[THEN conjunct1])
  show "\<forall>k<j. loopDay b k < e \<and> shouldShowMonth f (getMonth (loopDay b k))
           \<longrightarrow> (\<exists>k'<j. month_ord (loopDay b k') = month_ord (loopDay b k)
                    \<and> monthMarker b (loopDay b k') \<in> set acc)"
    by (rule a[THEN conjunct2, THEN conjunct1])
  show "\<forall>m\<in>set acc. \<exists>k<j. loopDay b k < e \<and> shouldShowMonth f (getMonth (loopDay b k))
                    \<and> m = monthMarker b (loopDay b k)"
    by (rule a[THEN conjunct2, THEN conjunct2, THEN conjunct1])
  show "\<forall>k<j. loopDay b k < e \<and> shouldShowMonth f (getMonth (loopDay b k))
           \<longrightarrow> month_ord (loopDay b k) \<le> 12 * ly + lm"
    by (rule a[THEN conjunct2, THEN conjunct2, THEN conjunct2, THEN conjunct1])
  show "(lm = - 1 \<and> acc = [])
         \<or> (\<exists>k<j. getMonth (loopDay b k) = lm \<and> getFullYear (loopDay b k) = ly
                \<and> loopDay b k < e \<and> shouldShowMonth f lm)"
    by (rule a[THEN conjunct2, THEN conjunct2, THEN conjunct2, THEN conjunct2])
qed

lemma markers_inv_init: "markers_inv b f e 0 (- 1) (- 1) []"
  by (simp add: markers_inv_def)

lemma markers_inv_push:
  assumes inv: "markers_inv b f e j lm ly acc"
    and lt: "loopDay b j < e"
    and new: "getMonth (loopDay b j) \<noteq> lm \<or> getFullYear (loopDay b j) \<noteq> ly"
    and sh: "shouldShowMonth f (getMonth (loopDay b j))"
  shows "markers_inv b f e (Suc j) (getMonth (loopDay b j)) (getFullYear (loopDay b j))
           (acc @ [monthMarker b (loopDay b j)])"
proof -
  let ?cur = "loopDay b j"
  note dist = markers_invD(1)[OF inv] and cov = markers_invD(2)[OF inv]
    and prov = markers_invD(3)[OF inv] and mx = markers_invD(4)[OF inv]
    and last = markers_invD(5)[OF inv]
  have fresh: "fullLabel (monthMarker b ?cur) \<notin> set (map fullLabel acc)"
  proof
    assume "fullLabel (monthMarker b ?cur) \<in> set (map fullLabel acc)"
    then obtain m where m: "m \<in> set acc" "fullLabel m = fullLabel (monthMarker b ?cur)"
      by auto
    with prov obtain k where k: "k < j" "loopDay b k < e"
        "shouldShowMonth f (getMonth (loopDay b k))" "m = monthMarker b (loopDay b k)"
      by blast
    from m(2) k(4)
    have "fullLabel (monthMarker b (loopDay b k)) = fullLabel (monthMarker b ?cur)"
      by simp
    then have same: "month_ord (loopDay b k) = month_ord ?cur"
      by (rule same_label_same_month)
    from mx k have le: "month_ord (loopDay b k) \<le> 12 * ly + lm" by blast
    from m(1) last obtain k0 where k0: "k0 < j" "getMonth (loopDay b k0) = lm"
        "getFullYear (loopDay b k0) = ly"
      by auto
    have "month_ord (loopDay b k0) \<le> month_ord ?cur"
      using k0(1) by (intro month_ord_mono loopDay_mono) simp
    then have "12 * ly + lm \<le> month_ord ?cur"
      using k0(2,3) by (simp add: month_ord_def)
    with same le have "month_ord ?cur = 12 * ly + lm" by simp
    moreover have "0 \<le> lm" "lm \<le> 11"
      using getMonth_range[of "loopDay b k0"] k0(2) by simp_all
    ultimately have "getMonth ?cur = lm \<and> getFullYear ?cur = ly"
      by (rule month_ord_eq)
    with new show False by simp
  qed
  have d': "distinct (map fullLabel (acc @ [monthMarker b ?cur]))"
    using dist fresh by simp
  have cov': "\<forall>k<Suc j. loopDay b k < e \<and> shouldShowMonth f (getMonth (loopDay b k))
           \<longrightarrow> (\<exists>k'<Suc j. month_ord (loopDay b k') = month_ord (loopDay b k)
                    \<and> monthMarker b (loopDay b k') \<in> set (acc @ [monthMarker b ?cur]))"
  proof (intro allI impI)
    fix k
    assume kj: "k < Suc j"
      and q: "loopDay b k < e \<and> shouldShowMonth f (getMonth (loopDay b k))"
    show "\<exists>k'<Suc j. month_ord (loopDay b k') = month_ord (loopDay b k)
                    \<and> monthMarker b (loopDay b k') \<in> set (acc @ [monthMarker b ?cur])"
    proof (cases "k = j")
      case True
      then show ?thesis by (intro exI[of _ j]) simp
    next
      case False
      with kj have "k < j" by simp
      with cov q obtain k' where "k' < j" "month_ord (loopDay b k') = month_ord (loopDay b k)"
          "monthMarker b (loopDay b k') \<in> set acc"
        by blast
      then show ?thesis by (intro exI[of _ k']) simp
    qed
  qed
  have prov': "\<forall>m\<in>set (acc @ [monthMarker b ?cur]).
      \<exists>k<Suc j. loopDay b k < e \<and> shouldShowMonth f (getMonth (loopDay b k))
                    \<and> m = monthMarker b (loopDay b k)"
  proof
    fix m
    assume "m \<in> set (acc @ [monthMarker b ?cur])"
    then consider "m \<in> set acc" | "m = monthMarker b ?cur" by auto
    then show "\<exists>k<Suc j. loopDay b k < e \<and> shouldShowMonth f (getMonth (loopDay b k))
                    \<and> m = monthMarker b (loopDay b k)"
    proof cases
      case 1
      with prov obtain k where "k < j" "loopDay b k < e"
          "shouldShowMonth f (getMonth (loopDay b k))" "m = monthMarker b (loopDay b k)"
        by blast
      then show ?thesis by (intro exI[of _ k]) simp
    next
      case 2
      with lt sh show ?thesis by (intro exI[of _ j]) simp
    qed
  qed
  have mx': "\<forall>k<Suc j. loopDay b k < e \<and> shouldShowMonth f (getMonth (loopDay b k))
           \<longrightarrow> month_ord (loopDay b k) \<le> 12 * getFullYear ?cur + getMonth ?cur"
  proof (intro allI impI)
    fix k
    assume "k < Suc j"
    then have "month_ord (loopDay b k) \<le> month_ord ?cur"
      by (intro month_ord_mono loopDay_mono) simp
    then show "month_ord (loopDay b k) \<le> 12 * getFullYear ?cur + getMonth ?cur"
      by (simp add: month_ord_def)
  qed
  have last': "\<exists>k<Suc j. getMonth (loopDay b k) = getMonth ?cur
      \<and> getFullYear (loopDay b k) = getFullYear ?cur
      \<and> loopDay b k < e \<and> shouldShowMonth f (getMonth ?cur)"
    using lt sh by (intro exI[of _ j]) simp
  show ?thesis
    unfolding markers_inv_def
  proof (intro conjI)
    show "(getMonth ?cur = - 1 \<and> acc @ [monthMarker b ?cur] = [])
         \<or> (\<exists>k<Suc j. getMonth (loopDay b k) = getMonth ?cur
                \<and> getFullYear (loopDay b k) = getFullYear ?cur
                \<and> loopDay b k < e \<and> shouldShowMonth f (getMonth ?cur))"
      using last' by (rule disjI2)
  qed (fact d' cov' prov' mx')+
qed

lemma markers_inv_skip:
  assumes inv: "markers_inv b f e j lm ly acc"
    and old: "\<not> ((getMonth (loopDay b j) \<noteq> lm \<or> getFullYear (loopDay b j) \<noteq> ly)
                \<and> shouldShowMonth f (getMonth (loopDay b j)))"
  shows "markers_inv b f e (Suc j) lm ly acc"
proof -
  let ?cur = "loopDay b j"
  note dist = markers_invD(1)[OF inv] and cov = markers_invD(2)[OF inv]
    and prov = markers_invD(3)[OF inv] and mx = markers_invD(4)[OF inv]
    and last = markers_invD(5)[OF inv]
  have shown: "shouldShowMonth f (getMonth ?cur)
      \<Longrightarrow> getMonth ?cur = lm \<and> getFullYear ?cur = ly"
    using old by blast
  have cov': "\<forall>k<Suc j. loopDay b k < e \<and> shouldShowMonth f (getMonth (loopDay b k))
           \<longrightarrow> (\<exists>k'<Suc j. month_ord (loopDay b k') = month_ord (loopDay b k)
                    \<and> monthMarker b (loopDay b k') \<in> set acc)"
  proof (intro allI impI)
    fix k
    assume kj: "k < Suc j"
      and q: "loopDay b k < e \<and> shouldShowMonth f (getMonth (loopDay b k))"
    show "\<exists>k'<Suc j. month_ord (loopDay b k') = month_ord (loopDay b k)
                    \<and> monthMarker b (loopDay b k') \<in> set acc"
    proof (cases "k = j")
      case False
      with kj have "k < j" by simp
      with cov q obtain k' where "k' < j" "month_ord (loopDay b k') = month_ord (loopDay b k)"
          "monthMarker b (loopDay b k') \<in> set acc"
        by blast
      then show ?thesis by (intro exI[of _ k']) simp
    next
      case True
      with q shown have key: "getMonth ?cur = lm" "getFullYear ?cur = ly" by simp_all
      have "lm \<noteq> - 1" using getMonth_range[of ?cur] key(1) by simp
      with last obtain k0 where k0: "k0 < j" "getMonth (loopDay b k0) = lm"
          "getFullYear (loopDay b k0) = ly" "loopDay b k0 < e" "shouldShowMonth f lm"
        by auto
      with cov obtain k' where k': "k' < j"
          "month_ord (loopDay b k') = month_ord (loopDay b k0)"
          "monthMarker b (loopDay b k') \<in> set acc"
        by blast
      have "month_ord (loopDay b k0) = month_ord (loopDay b k)"
        using k0(2,3) key True by (simp add: month_ord_def)
      with k' show ?thesis by (intro exI[of _ k']) simp
    qed
  qed
  have prov': "\<forall>m\<in>set acc. \<exists>k<Suc j. loopDay b k < e
      \<and> shouldShowMonth f (getMonth (loopDay b k)) \<and> m = monthMarker b (loopDay b k)"
    using prov less_Suc_eq by blast
  have mx': "\<forall>k<Suc j. loopDay b k < e \<and> shouldShowMonth f (getMonth (loopDay b k))
           \<longrightarrow> month_ord (loopDay b k) \<le> 12 * ly + lm"
  proof (intro allI impI)
    fix k
    assume kj: "k < Suc j"
      and q: "loopDay b k < e \<and> shouldShowMonth f (getMonth (loopDay b k))"
    show "month_ord (loopDay b k) \<le> 12 * ly + lm"
    proof (cases "k = j")
      case False
      with kj mx q show ?thesis by simp
    next
      case True
      with q shown show ?thesis by (simp add: month_ord_def)
    qed
  qed
  have last': "(lm = - 1 \<and> acc = [])
         \<or> (\<exists>k<Suc j. getMonth (loopDay b k) = lm \<and> getFullYear (loopDay b k) = ly
                \<and> loopDay b k < e \<and> shouldShowMonth f lm)"
    using last less_Suc_eq by blast
  show ?thesis
    unfolding markers_inv_def
    by (intro conjI) (fact dist cov' prov' mx' last')+
qed

lemma monthMarkers_loop_inv:
  assumes "markers_inv b f e j lm ly acc"
  shows "\<exists>j' lm' ly'. e \<le> loopDay b j'
           \<and> markers_inv b f e j' lm' ly' (monthMarkers_loop b f e (loopDay b j) lm ly acc)"
  using assms
proof (induction "nat (e - loopDay b j)" arbitrary: j lm ly acc rule: less_induct)
  case less
  let ?cur = "loopDay b j"
  show ?case
  proof (cases "?cur < e")
    case False
    then have "monthMarkers_loop b f e ?cur lm ly acc = acc"
      by (subst monthMarkers_loop.simps) simp
    with False less.prems show ?thesis
      by (intro exI[of _ j] exI[of _ lm] exI[of _ ly]) simp
  next
    case True
    have dec: "nat (e - loopDay b (Suc j)) < nat (e - ?cur)"
      using True by (simp add: loopDay_def msPerDay_def)
    show ?thesis
    proof (cases "(getMonth ?cur \<noteq> lm \<or> getFullYear ?cur \<noteq> ly)
                    \<and> shouldShowMonth f (getMonth ?cur)")
      case push: True
      then have step: "monthMarkers_loop b f e ?cur lm ly acc
          = monthMarkers_loop b f e (loopDay b (Suc j)) (getMonth ?cur) (getFullYear ?cur)
              (acc @ [monthMarker b ?cur])"
        using True by (subst monthMarkers_loop.simps) (auto simp add: loopDay_next Let_def)
      from push have new: "getMonth ?cur \<noteq> lm \<or> getFullYear ?cur \<noteq> ly"
        and sh: "shouldShowMonth f (getMonth ?cur)"
        by blast+
      have "markers_inv b f e (Suc j) (getMonth ?cur) (getFullYear ?cur)
              (acc @ [monthMarker b ?cur])"
        by (rule markers_inv_push[OF less.prems True new sh])
      from less.hyps[OF dec this] step show ?thesis by simp
    next
      case skip: False
      then have step: "monthMarkers_loop b f e ?cur lm ly acc
          = monthMarkers_loop b f e (loopDay b (Suc j)) lm ly acc"
        using True by (subst monthMarkers_loop.simps) (auto simp add: loopDay_next Let_def)
      have "markers_inv b f e (Suc j) lm ly acc"
        using less.prems skip by (rule markers_inv_skip)
      from less.hyps[OF dec this] step show ?thesis by simp
    qed
  qed
qed

lemma monthMarkers_loop_result:
  defines "res \<equiv> \<lambda>b f e. monthMarkers_loop b f e b (- 1) (- 1) []"
  shows "distinct (map fullLabel (res b f e))"
    and "loopDay b k < e \<Longrightarrow> shouldShowMonth f (getMonth (loopDay b k))
           \<Longrightarrow> \<exists>k'. month_ord (loopDay b k') = month_ord (loopDay b k)
                    \<and> monthMarker b (loopDay b k') \<in> set (res b f e)"
    and "m \<in> set (res b f e)
           \<Longrightarrow> \<exists>k. loopDay b k < e \<and> shouldShowMonth f (getMonth (loopDay b k))
                    \<and> m = monthMarker b (loopDay b k)"
proof -
  have b0: "loopDay b 0 = b" by (simp add: loopDay_def)
  from monthMarkers_loop_inv[OF markers_inv_init[of b f e]]
  obtain j' lm' ly' where j': "e \<le> loopDay b j'"
    and inv: "markers_inv b f e j' lm' ly' (res b f e)"
    unfolding res_def b0 by blast
  have before: "\<And>k. loopDay b k < e \<Longrightarrow> k < j'"
  proof (rule ccontr)
    fix k
    assume "loopDay b k < e" "\<not> k < j'"
    then have "loopDay b j' \<le> loopDay b k" by (intro loopDay_mono) simp
    with j' \<open>loopDay b k < e\<close> show False by simp
  qed
  show "distinct (map fullLabel (res b f e))"
    by (rule markers_invD(1)[OF inv])
  {
    assume k: "loopDay b k < e" "shouldShowMonth f (getMonth (loopDay b k))"
    with before have "k < j'" by simp
    with markers_invD(2)[OF inv] k
    show "\<exists>k'. month_ord (loopDay b k') = month_ord (loopDay b k)
                    \<and> monthMarker b (loopDay b k') \<in> set (res b f e)"
      by blast
  }
  {
    assume "m \<in> set (res b f e)"
    with markers_invD(3)[OF inv]
    show "\<exists>k. loopDay b k < e \<and> shouldShowMonth f (getMonth (loopDay b k))
                    \<and> m = monthMarker b (loopDay b k)"
      by blast
  }
qed

lemma count_distinct_image:
  "distinct (map g xs) \<Longrightarrow> y \<in> g ` set xs \<Longrightarrow> length (filter (\<lambda>x. g x = y) xs) = 1"
proof (induction xs)
  case Nil
  then show ?case by simp
next
  case (Cons x xs)
  show ?case
  proof (cases "g x = y")
    case True
    with Cons.prems(1) have "y \<notin> g ` set xs" by auto
    then have "filter (\<lambda>x. g x = y) xs = []"
      by (auto simp add: filter_empty_conv)
    with True show ?thesis by simp
  next
    case False
    with Cons.prems have "distinct (map g xs)" "y \<in> g ` set xs" by auto
    with Cons.IH False show ?thesis by simp
  qed
qed

lemma weekIndex_monthMarker:
  "weekIndex (monthMarker b (b + int k * msPerDay)) = int k div 7"
  by (simp add: monthMarker_def getTime_def msPerDay_def Let_def)

lemma calculateMonthMarkers_loop:
  "calculateMonthMarkers b n f
     = sort_key weekIndex
         (monthMarkers_loop b f (setFullYear b (getFullYear b + n)) b (- 1) (- 1) [])"
  by (simp add: calculateMonthMarkers_def Let_def)

text \<open>
  Claim C9. The markers that \<open>calculateMonthMarkers\<close> returns are in ascending order of
  \<open>weekIndex\<close>. The loop visits the birthday and every following day before the end
  date (the birthday with \<open>totalYears\<close> added to its year). For every such day in a
  January there is a marker with the label \<open>Jan\<close>, flagged first of the year, whose
  full label names that year, whatever the frequency setting. For every such day in a
  month that the frequency setting shows, exactly one marker has the full label of that
  month and year; and every marker is the marker of such a day, with the week index
  \<open>k div 7\<close> for the day \<open>k\<close> days after the birthday.
\<close>

theorem calculateMonthMarkers_sorted_one_per_month:
  "sorted (map weekIndex (calculateMonthMarkers b n f))
   \<and> (\<forall>k. b + int k * msPerDay < setFullYear b (getFullYear b + n)
          \<and> getMonth (b + int k * msPerDay) = 0
        \<longrightarrow> (\<exists>m\<in>set (calculateMonthMarkers b n f).
               label m = ''Jan'' \<and> isFirstOfYear m
               \<and> fullLabel m = ''Jan '' @ Number_toString (getFullYear (b + int k * msPerDay))))
   \<and> (\<forall>k. b + int k * msPerDay < setFullYear b (getFullYear b + n)
          \<and> shouldShowMonth f (getMonth (b + int k * msPerDay))
        \<longrightarrow> length (filter (\<lambda>m. fullLabel m
                               = MONTH_NAMES ! nat (getMonth (b + int k * msPerDay)) @ '' ''
                                 @ Number_toString (getFullYear (b + int k * msPerDay)))
                     (calculateMonthMarkers b n f)) = 1)
   \<and> (\<forall>m\<in>set (calculateMonthMarkers b n f).
         \<exists>k. b + int k * msPerDay < setFullYear b (getFullYear b + n)
            \<and> shouldShowMonth f (getMonth (b + int k * msPerDay))
            \<and> m = monthMarker b (b + int k * msPerDay)
            \<and> weekIndex m = int k div 7)"
proof (intro conjI allI impI ballI)
  let ?e = "setFullYear b (getFullYear b + n)"
  let ?res = "monthMarkers_loop b f ?e b (- 1) (- 1) []"
  have ms: "calculateMonthMarkers b n f = sort_key weekIndex ?res"
    by (rule calculateMonthMarkers_loop)
  have set_ms: "set (calculateMonthMarkers b n f) = set ?res"
    by (simp add: ms)
  show "sorted (map weekIndex (calculateMonthMarkers b n f))"
    by (simp add: ms)
  {
    fix k
    assume a: "b + int k * msPerDay < ?e \<and> shouldShowMonth f (getMonth (b + int k * msPerDay))"
    let ?t = "b + int k * msPerDay"
    have t: "loopDay b k = ?t" by (simp add: loopDay_def)
    from a have "loopDay b k < ?e" "shouldShowMonth f (getMonth (loopDay b k))"
      by (simp_all add: t)
    from monthMarkers_loop_result(2)[OF this]
    obtain k' where k': "month_ord (loopDay b k') = month_ord (loopDay b k)"
      "monthMarker b (loopDay b k') \<in> set ?res"
      by blast
    have "fullLabel (monthMarker b (loopDay b k')) = fullLabel (monthMarker b (loopDay b k))"
      using k'(1) by (rule same_month_same_label)
    then have "fullLabel (monthMarker b ?t) \<in> fullLabel ` set ?res"
      using k'(2) unfolding t by (metis imageI)
    with monthMarkers_loop_result(1)[of b f ?e]
    have "length (filter (\<lambda>m. fullLabel m = fullLabel (monthMarker b ?t)) ?res) = 1"
      by (rule count_distinct_image)
    moreover have "filter (\<lambda>m. fullLabel m = fullLabel (monthMarker b ?t))
                     (calculateMonthMarkers b n f)
        = sort_key weekIndex (filter (\<lambda>m. fullLabel m = fullLabel (monthMarker b ?t)) ?res)"
      unfolding ms by (rule filter_sort)
    ultimately
    show "length (filter (\<lambda>m. fullLabel m
                               = MONTH_NAMES ! nat (getMonth ?t) @ '' ''
                                 @ Number_toString (getFullYear ?t))
                     (calculateMonthMarkers b n f)) = 1"
      by (simp add: monthMarker_fields monthLabel_def)
  }
  {
    fix k
    assume a: "b + int k * msPerDay < ?e \<and> getMonth (b + int k * msPerDay) = 0"
    let ?t = "b + int k * msPerDay"
    have t: "loopDay b k = ?t" by (simp add: loopDay_def)
    from a have "loopDay b k < ?e" "shouldShowMonth f (getMonth (loopDay b k))"
      by (simp_all add: t shouldShowMonth_def)
    from monthMarkers_loop_result(2)[OF this]
    obtain k' where k': "month_ord (loopDay b k') = month_ord (loopDay b k)"
      "monthMarker b (loopDay b k') \<in> set ?res"
      by blast
    have "month_ord (loopDay b k') = 12 * getFullYear ?t + getMonth ?t"
      using k'(1) unfolding t by (simp only: month_ord_def)
    then have "getMonth (loopDay b k') = getMonth ?t \<and> getFullYear (loopDay b k') = getFullYear ?t"
      by (rule month_ord_eq) (rule getMonth_range)+
    with a have j: "getMonth (loopDay b k') = 0" "getFullYear (loopDay b k') = getFullYear ?t"
      by simp_all
    let ?m = "monthMarker b (loopDay b k')"
    have "label ?m = ''Jan''" "isFirstOfYear ?m"
      "fullLabel ?m = ''Jan '' @ Number_toString (getFullYear ?t)"
      by (simp_all add: monthMarker_fields monthLabel_def j MONTH_NAMES_def)
    with k'(2) set_ms
    show "\<exists>m\<in>set (calculateMonthMarkers b n f).
               label m = ''Jan'' \<and> isFirstOfYear m
               \<and> fullLabel m = ''Jan '' @ Number_toString (getFullYear ?t)"
      by blast
  }
  {
    fix m
    assume "m \<in> set (calculateMonthMarkers b n f)"
    then have "m \<in> set ?res" by (simp only: set_ms)
    from monthMarkers_loop_result(3)[OF this]
    obtain k where "loopDay b k < ?e" "shouldShowMonth f (getMonth (loopDay b k))"
      "m = monthMarker b (loopDay b k)"
      by blast
    then have "b + int k * msPerDay < ?e
            \<and> shouldShowMonth f (getMonth (b + int k * msPerDay))
            \<and> m = monthMarker b (b + int k * msPerDay)
            \<and> weekIndex m = int k div 7"
      by (simp add: loopDay_def weekIndex_monthMarker)
    then show "\<exists>k. b + int k * msPerDay < ?e
            \<and> shouldShowMonth f (getMonth (b + int k * msPerDay))
            \<and> m = monthMarker b (b + int k * msPerDay)
            \<and> weekIndex m = int k div 7"
      by (rule exI)
  }
qed

theorem calculateMonthMarkers_sorted_one_per_month_witness:
  "(947894400000::int) < setFullYear 947894400000 (getFullYear 947894400000 + 1)
   \<and> getMonth 947894400000 = 0
   \<and> getFullYear 947894400000 = 2000
   \<and> shouldShowMonth ''year'' 0
   \<and> sorted (map weekIndex (calculateMonthMarkers 947894400000 1 ''year''))
   \<and> (\<exists>m\<in>set (calculateMonthMarkers 947894400000 1 ''year'').
         label m = ''Jan'' \<and> isFirstOfYear m \<and> fullLabel m = ''Jan 2000'')
   \<and> length (filter (\<lambda>m. fullLabel m = ''Jan 2000'')
               (calculateMonthMarkers 947894400000 1 ''year'')) = 1"
proof -
  let ?b = "947894400000 :: int"
  note T = calculateMonthMarkers_sorted_one_per_month[of ?b 1 "''year''"]
  have e: "?b < setFullYear ?b (getFullYear ?b + 1)"
    by (simp add: date_defs Let_def cong: let_weak_cong)
  have m: "getMonth ?b = 0" and y: "getFullYear ?b = 2000"
    by (simp_all add: date_defs Let_def cong: let_weak_cong)
  have s: "shouldShowMonth ''year'' 0"
    by (simp add: shouldShowMonth_def)
  have k0: "?b + int 0 * msPerDay = ?b" by simp
  have h1: "?b + int 0 * msPerDay < setFullYear ?b (getFullYear ?b + 1)
      \<and> getMonth (?b + int 0 * msPerDay) = 0"
    unfolding k0 using e m by simp
  have h2: "?b + int 0 * msPerDay < setFullYear ?b (getFullYear ?b + 1)
      \<and> shouldShowMonth ''year'' (getMonth (?b + int 0 * msPerDay))"
    unfolding k0 using e m s by simp
  have srt: "sorted (map weekIndex (calculateMonthMarkers ?b 1 ''year''))"
    by (rule T[THEN conjunct1])
  have jan: "\<exists>m\<in>set (calculateMonthMarkers ?b 1 ''year'').
      label m = ''Jan'' \<and> isFirstOfYear m
      \<and> fullLabel m = ''Jan '' @ Number_toString (getFullYear (?b + int 0 * msPerDay))"
    by (rule T[THEN conjunct2, THEN conjunct1, rule_format, of 0, OF h1])
  have one: "length (filter (\<lambda>m. fullLabel m
        = MONTH_NAMES ! nat (getMonth (?b + int 0 * msPerDay)) @ '' ''
          @ Number_toString (getFullYear (?b + int 0 * msPerDay)))
      (calculateMonthMarkers ?b 1 ''year'')) = 1"
    by (rule T[THEN conjunct2, THEN conjunct2, THEN conjunct1, rule_format, of 0, OF h2])
  have l: "Number_toString 2000 = ''2000''"
    by (simp add: str_defs)
  have jan': "\<exists>m\<in>set (calculateMonthMarkers ?b 1 ''year'').
      label m = ''Jan'' \<and> isFirstOfYear m \<and> fullLabel m = ''Jan 2000''"
    using jan unfolding k0 y l by simp
  have one': "length (filter (\<lambda>m. fullLabel m = ''Jan 2000'')
      (calculateMonthMarkers ?b 1 ''year'')) = 1"
    using one unfolding k0 y m l by (simp add: MONTH_NAMES_def)
  from e m y s srt jan' one' show ?thesis by blast
qed

section \<open>Zoom\<close>











end
